theory Spec2Isabelle
  imports Complex_Main "HOL-Library.Word"
begin

section \<open>Python values shared by the modules\<close>

text \<open>
  The exceptions that the modelled functions can raise. A function that can raise returns
  \<open>py_error + 'a\<close>, with \<open>Inl\<close> for the exception.
\<close>

datatype py_error = ValueError | IndexError | KeyError

section \<open>daomop/storage.py: copy\<close>

text \<open>
  \<^verbatim>\<open>
  MAX_RETRY = 10

  def copy(source, destination):
      count = 1
      while True:
          try:
              return vospace.client.copy(source, destination)
          except Exception as ex:
              count += 1
              logging.debug(str(ex))
              if count > MAX_RETRY:
                  raise ex
  \<close>
  The remote client is the environment: \<open>client k\<close> is what the call number \<open>k\<close>
  (counted from 0) of \<open>vospace.client.copy(source, destination)\<close> does. It returns a
  value, raises an instance of \<open>Exception\<close> (which the \<open>except\<close> clause catches), or
  raises something that is not an \<open>Exception\<close> (a \<open>KeyboardInterrupt\<close>, say), which the
  clause lets through. The loop state is the number of calls made so far and \<open>count\<close>;
  the model returns the outcome together with the number of calls made.
\<close>

datatype ('e, 'a) call_result = Returned 'a | RaisedException 'e | RaisedOther 'e

definition MAX_RETRY :: nat where
  "MAX_RETRY = 10"

function copy_loop ::
  "(nat \<Rightarrow> ('e, 'a) call_result) \<Rightarrow> nat \<Rightarrow> nat \<Rightarrow> ('e, 'a) call_result \<times> nat" where
  "copy_loop client calls count =
     (case client calls of
        Returned v \<Rightarrow> (Returned v, Suc calls)
      | RaisedOther b \<Rightarrow> (RaisedOther b, Suc calls)
      | RaisedException ex \<Rightarrow>
          (let count' = count + 1
           in if count' > MAX_RETRY then (RaisedException ex, Suc calls)
              else copy_loop client (Suc calls) count'))"
  by pat_completeness auto
termination
  by (relation "measure (\<lambda>(client, calls, count). MAX_RETRY - count)") auto

declare copy_loop.simps [simp del]

definition copy :: "(nat \<Rightarrow> ('e, 'a) call_result) \<Rightarrow> ('e, 'a) call_result \<times> nat" where
  "copy client = copy_loop client 0 1"

fun raised :: "('e, 'a) call_result \<Rightarrow> bool" where
  "raised (Returned v) = False"
| "raised (RaisedException ex) = True"
| "raised (RaisedOther b) = True"

fun caught :: "('e, 'a) call_result \<Rightarrow> bool" where
  "caught (RaisedException ex) = True"
| "caught r = False"

section \<open>ossos/storage/__init__.py: SyncingVOFile\<close>

text \<open>
  The local file handle is opened with mode \<open>"a+b"\<close>: reading starts at the file
  position, and every write goes to the end of the file whatever the position is.
  \<^verbatim>\<open>
  self.local_filehandle = open(self.local_filename, "a+b")

  def read(self):
      self.local_filehandle.seek(0)
      return self.local_filehandle.read()

  def write(self, content):
      self.local_filehandle.write(content)

  def flush(self):
      self.local_filehandle.flush()
      self.vosclient.copy(self.get_local_filename(), self.uri)

  def seek(self, offset):
      pass
  \<close>
\<close>

record filehandle =
  contents :: string
  position :: nat

definition fh_seek :: "nat \<Rightarrow> filehandle \<Rightarrow> filehandle" where
  "fh_seek offset fh = fh\<lparr>position := offset\<rparr>"

definition fh_read :: "filehandle \<Rightarrow> string \<times> filehandle" where
  "fh_read fh = (drop (position fh) (contents fh), fh\<lparr>position := max (position fh) (length (contents fh))\<rparr>)"

definition fh_write :: "string \<Rightarrow> filehandle \<Rightarrow> filehandle" where
  "fh_write content fh =
     fh\<lparr>contents := contents fh @ content, position := length (contents fh @ content)\<rparr>"

record vofile =
  local_filehandle :: filehandle
  remote :: "string option"

definition vo_read :: "vofile \<Rightarrow> string \<times> vofile" where
  "vo_read f =
     (let (content, fh) = fh_read (fh_seek 0 (local_filehandle f))
      in (content, f\<lparr>local_filehandle := fh\<rparr>))"

definition vo_write :: "string \<Rightarrow> vofile \<Rightarrow> vofile" where
  "vo_write content f = f\<lparr>local_filehandle := fh_write content (local_filehandle f)\<rparr>"

definition vo_flush :: "vofile \<Rightarrow> vofile" where
  "vo_flush f = f\<lparr>remote := Some (contents (local_filehandle f))\<rparr>"

definition vo_seek :: "nat \<Rightarrow> vofile \<Rightarrow> vofile" where
  "vo_seek offset f = f"

text \<open>A client program is a sequence of method calls; \<open>run\<close> performs them in order.\<close>

datatype vo_call = Read | Write string | Seek nat | Flush

fun vo_step :: "vofile \<Rightarrow> vo_call \<Rightarrow> vofile" where
  "vo_step f Read = snd (vo_read f)"
| "vo_step f (Write c) = vo_write c f"
| "vo_step f (Seek offset) = vo_seek offset f"
| "vo_step f Flush = vo_flush f"

fun run :: "vofile \<Rightarrow> vo_call list \<Rightarrow> vofile" where
  "run f [] = f"
| "run f (c # cs) = run (vo_step f c) cs"

fun written :: "vo_call list \<Rightarrow> string" where
  "written [] = []"
| "written (Write c # cs) = c @ written cs"
| "written (_ # cs) = written cs"

section \<open>Python strings and integers\<close>

text \<open>
  Python's unbounded integers are \<open>int\<close>; byte strings are \<open>string\<close>. \<open>str_int\<close> is
  \<open>str(n)\<close> and \<open>"{}".format(n)\<close> for an integer \<open>n\<close>: the decimal digits, with a minus
  sign for a negative number.
\<close>

definition is_digit :: "char \<Rightarrow> bool" where
  "is_digit c = (c \<in> set ''0123456789'')"

definition digit_char :: "nat \<Rightarrow> char" where
  "digit_char d = ''0123456789'' ! d"

definition digit_value :: "char \<Rightarrow> nat" where
  "digit_value c = of_char c - 48"

function str_nat :: "nat \<Rightarrow> string" where
  "str_nat n = (if n < 10 then [digit_char n] else str_nat (n div 10) @ [digit_char (n mod 10)])"
  by pat_completeness auto
termination
  by (relation "measure id") auto

declare str_nat.simps [simp del]

definition str_int :: "int \<Rightarrow> string" where
  "str_int i = (if i < 0 then CHR ''-'' # str_nat (nat (- i)) else str_nat (nat i))"

text \<open>
  \<open>py_int_of_str\<close> is \<open>int(x)\<close> for the strings that the regular expression of
  \<open>datasec_to_list\<close> captures (a sign or none, then digits and stars): the conversion
  succeeds when everything after the sign is a digit, and raises \<open>ValueError\<close> otherwise.
\<close>

definition nat_of_digits :: "string \<Rightarrow> nat" where
  "nat_of_digits ds = foldl (\<lambda>acc c. 10 * acc + digit_value c) 0 ds"

definition py_int_of_str :: "string \<Rightarrow> py_error + int" where
  "py_int_of_str s =
     (let (neg, ds) = (case s of
                         [] \<Rightarrow> (False, [])
                       | c # cs \<Rightarrow> if c = CHR ''-'' then (True, cs)
                                  else if c = CHR ''+'' then (False, cs)
                                  else (False, s))
      in if ds \<noteq> [] \<and> list_all is_digit ds
         then Inr (if neg then - int (nat_of_digits ds) else int (nat_of_digits ds))
         else Inl ValueError)"

section \<open>daomop/storage.py: datasec_to_list and reset_datasec\<close>

text \<open>
  \<^verbatim>\<open>
  def datasec_to_list(datasec):
      return [int(x) for x in re.findall(r"([-+]?[*\d]+?)[:,\]]+", datasec)]
  \<close>
  \<open>match_at s\<close> is one attempt of the regular expression at the start of \<open>s\<close>: an optional
  sign, one or more characters among the star and the digits, then one or more separators
  among colon, comma and closing bracket. It gives the captured group and what is left of
  \<open>s\<close> after the match. No character is both an item and a separator, and no sign is an
  item, so the lazy \<open>+?\<close> stops exactly where the items stop and backtracking over the
  sign never succeeds: the match is the longest run of items followed by the longest run
  of separators. \<open>findall\<close> scans from left to right, continuing after a match, or one
  character further when there is none.
\<close>

definition is_sign :: "char \<Rightarrow> bool" where
  "is_sign c = (c = CHR ''-'' \<or> c = CHR ''+'')"

definition is_item :: "char \<Rightarrow> bool" where
  "is_item c = (c = CHR ''*'' \<or> is_digit c)"

definition is_sep :: "char \<Rightarrow> bool" where
  "is_sep c = (c = CHR '':'' \<or> c = CHR '','' \<or> c = CHR '']'')"

definition match_at :: "string \<Rightarrow> (string \<times> string) option" where
  "match_at s =
     (let (sg, s1) = (case s of
                        [] \<Rightarrow> ([], s)
                      | c # cs \<Rightarrow> if is_sign c then ([c], cs) else ([], s));
          item = takeWhile is_item s1;
          s2 = dropWhile is_item s1
      in if item \<noteq> [] \<and> s2 \<noteq> [] \<and> is_sep (hd s2)
         then Some (sg @ item, dropWhile is_sep s2)
         else None)"

function findall :: "string \<Rightarrow> string list" where
  "findall [] = []"
| "findall (c # cs) =
     (case match_at (c # cs) of
        Some (g, rest) \<Rightarrow> g # findall rest
      | None \<Rightarrow> findall cs)"
  by pat_completeness auto
termination
proof (relation "measure length")
  show "wf (measure length)" by simp
next
  fix c cs x2 g rest
  assume m: "match_at (c # cs) = Some x2" and x: "(g, rest) = x2"
  have d: "\<And>P xs. length (dropWhile P xs) \<le> length (xs :: string)"
    by (rule length_dropWhile_le)
  have t: "\<And>P xs. takeWhile P xs \<noteq> [] \<Longrightarrow> length (dropWhile P xs) < length (xs :: string)"
  proof -
    fix P and xs :: string
    assume "takeWhile P xs \<noteq> []"
    then have "0 < length (takeWhile P xs)" by simp
    moreover have "length (takeWhile P xs) + length (dropWhile P xs) = length xs"
      by (metis length_append takeWhile_dropWhile_id)
    ultimately show "length (dropWhile P xs) < length xs" by arith
  qed
  show "(rest, c # cs) \<in> measure length"
  proof (cases "is_sign c")
    case True
    with m x have "takeWhile is_item cs \<noteq> []" and r: "rest = dropWhile is_sep (dropWhile is_item cs)"
      by (auto simp: match_at_def Let_def split: if_splits)
    with t [of is_item cs] d [of is_sep "dropWhile is_item cs"] show ?thesis by simp
  next
    case False
    with m x have "takeWhile is_item (c # cs) \<noteq> []"
      and r: "rest = dropWhile is_sep (dropWhile is_item (c # cs))"
      by (auto simp: match_at_def Let_def split: if_splits)
    with t [of is_item "c # cs"] d [of is_sep "dropWhile is_item (c # cs)"] show ?thesis
      by simp
  qed
next
  fix c cs
  show "(cs, c # cs) \<in> measure length" by simp
qed

declare findall.simps [simp del]

fun ints_of :: "string list \<Rightarrow> py_error + int list" where
  "ints_of [] = Inr []"
| "ints_of (x # xs) =
     (case py_int_of_str x of
        Inl e \<Rightarrow> Inl e
      | Inr i \<Rightarrow> (case ints_of xs of Inl e \<Rightarrow> Inl e | Inr js \<Rightarrow> Inr (i # js)))"

definition datasec_to_list :: "string \<Rightarrow> py_error + int list" where
  "datasec_to_list datasec = ints_of (findall datasec)"

text \<open>
  \<open>str_replace old new s\<close> is \<open>s.replace(old, new)\<close>: every occurrence of \<open>old\<close>, taken from
  left to right without overlap, becomes \<open>new\<close>.
\<close>

function replace_nonempty :: "string \<Rightarrow> string \<Rightarrow> string \<Rightarrow> string" where
  "replace_nonempty old new s =
     (if s = [] \<or> old = [] then s
      else if take (length old) s = old
           then new @ replace_nonempty old new (drop (length old) s)
           else hd s # replace_nonempty old new (tl s))"
  by pat_completeness auto
termination
  by (relation "measure (\<lambda>(old, new, s). length s)") auto

declare replace_nonempty.simps [simp del]

definition str_replace :: "string \<Rightarrow> string \<Rightarrow> string \<Rightarrow> string" where
  "str_replace old new s =
     (if old = [] then new @ concat (map (\<lambda>c. c # new) s) else replace_nonempty old new s)"

text \<open>
  \<^verbatim>\<open>
  def reset_datasec(cutout, datasec, naxis1, naxis2):
      if cutout is None or cutout == "[*,*]":
          return datasec
      try:
          datasec = datasec_to_list(datasec)
      except:
          return datasec

      # check for '-*' in the cutout string and replace is naxis:1
      cutout = cutout.replace(" ", "")
      cutout = cutout.replace("[-*,", "{}:1,".format(naxis1))
      cutout = cutout.replace(",-*]", ",{}:1]".format(naxis2))
      cutout = cutout.replace("[*,", "[1:{},".format(naxis1))
      cutout = cutout.replace(",*]", ",1:{}]".format(naxis1))

      try:
          cutout = datasec_to_list(cutout)
      except:
          logging.debug("Failed to processes the cutout pattern: {}".format(cutout))
          return datasec

      if len(cutout) == 5:
          # cutout likely starts with extension, remove
          cutout = cutout[1:]

      # -ve integer offsets indicate offset from the end of array.
      for idx in [0, 1]:
          if cutout[idx] < 0:
              cutout[idx] = naxis1 - cutout[idx] + 1
      for idx in [2, 3]:
          if cutout[idx] < 0:
              cutout[idx] = naxis2 - cutout[idx] + 1

      flip = cutout[0] > cutout[1]
      flop = cutout[2] > cutout[3]

      if flip:
          cutout = [naxis1 - cutout[0] + 1, naxis1 - cutout[1] + 1, cutout[2], cutout[3]]
          datasec = [naxis1 - datasec[1] + 1, naxis1 - datasec[0] + 1, datasec[2], datasec[3]]

      if flop:
          cutout = [cutout[0], cutout[1], naxis2 - cutout[2] + 1, naxis2 - cutout[3] + 1]
          datasec = [datasec[0], datasec[1], naxis2 - datasec[3] + 1, naxis2 - datasec[2] + 1]

      datasec = [max(datasec[0] - cutout[0] + 1, 1),
                 min(datasec[1] - cutout[0] + 1, naxis1),
                 max(datasec[2] - cutout[2] + 1, 1),
                 min(datasec[3] - cutout[2] + 1, naxis2)]

      return "[{}:{},{}:{}]".format(datasec[0], datasec[1], datasec[2], datasec[3])
  \<close>
  \<open>expand_cutout\<close> is the chain of five \<open>replace\<close> calls; \<open>format_section\<close> is the format
  of the last line. The function returns the string \<open>datasec\<close> (\<open>RStr\<close>) from three places
  and, from the second \<open>except\<close>, the value that the name \<open>datasec\<close> holds by then, which is
  the parsed list (\<open>RList\<close>). The loops read \<open>cutout[0]\<close> to \<open>cutout[3]\<close>, and every path
  after them reads \<open>datasec[0]\<close> to \<open>datasec[3]\<close>: a list shorter than four entries raises
  \<open>IndexError\<close>, the cutout first. \<open>from_end\<close> is the body of the two loops.
\<close>

definition expand_cutout :: "string \<Rightarrow> int \<Rightarrow> int \<Rightarrow> string" where
  "expand_cutout cutout naxis1 naxis2 =
     (let c1 = str_replace '' '' '''' cutout;
          c2 = str_replace ''[-*,'' (str_int naxis1 @ '':1,'') c1;
          c3 = str_replace '',-*]'' ('','' @ str_int naxis2 @ '':1]'') c2;
          c4 = str_replace ''[*,'' (''[1:'' @ str_int naxis1 @ '','') c3
      in str_replace '',*]'' ('',1:'' @ str_int naxis1 @ '']'') c4)"

definition format_section :: "int \<Rightarrow> int \<Rightarrow> int \<Rightarrow> int \<Rightarrow> string" where
  "format_section a b c d =
     ''['' @ str_int a @ '':'' @ str_int b @ '','' @ str_int c @ '':'' @ str_int d @ '']''"

datatype retval = RStr string | RList "int list"

definition from_end :: "int \<Rightarrow> int \<Rightarrow> int" where
  "from_end naxis c = (if c < 0 then naxis - c + 1 else c)"

definition reset_datasec :: "string option \<Rightarrow> string \<Rightarrow> int \<Rightarrow> int \<Rightarrow> py_error + retval" where
  "reset_datasec cutout datasec naxis1 naxis2 =
     (case cutout of
        None \<Rightarrow> Inr (RStr datasec)
      | Some cutout_str \<Rightarrow>
          if cutout_str = ''[*,*]'' then Inr (RStr datasec)
          else
            (case datasec_to_list datasec of
               Inl e \<Rightarrow> Inr (RStr datasec)
             | Inr ds \<Rightarrow>
                 (case datasec_to_list (expand_cutout cutout_str naxis1 naxis2) of
                    Inl e \<Rightarrow> Inr (RList ds)
                  | Inr co5 \<Rightarrow>
                      (let co = (if length co5 = 5 then tl co5 else co5)
                       in if length co < 4 then Inl IndexError
                          else if length ds < 4 then Inl IndexError
                          else
                            (let c0 = from_end naxis1 (co ! 0);
                                 c1 = from_end naxis1 (co ! 1);
                                 c2 = from_end naxis2 (co ! 2);
                                 c3 = from_end naxis2 (co ! 3);
                                 flip = (c0 > c1);
                                 flop = (c2 > c3);
                                 (cx, dx) =
                                   (if flip
                                    then ([naxis1 - c0 + 1, naxis1 - c1 + 1, c2, c3],
                                          [naxis1 - ds ! 1 + 1, naxis1 - ds ! 0 + 1,
                                           ds ! 2, ds ! 3])
                                    else ([c0, c1, c2, c3], ds));
                                 (cy, dy) =
                                   (if flop
                                    then ([cx ! 0, cx ! 1, naxis2 - cx ! 2 + 1,
                                           naxis2 - cx ! 3 + 1],
                                          [dx ! 0, dx ! 1, naxis2 - dx ! 3 + 1,
                                           naxis2 - dx ! 2 + 1])
                                    else (cx, dx))
                             in Inr (RStr (format_section
                                  (max (dy ! 0 - cy ! 0 + 1) 1)
                                  (min (dy ! 1 - cy ! 0 + 1) naxis1)
                                  (max (dy ! 2 - cy ! 2 + 1) 1)
                                  (min (dy ! 3 - cy ! 2 + 1) naxis2))))))))"

section \<open>ossos/storage/__init__.py: get_uri\<close>

text \<open>
  \<^verbatim>\<open>
  DBIMAGES='vos:OSSOS/dbimages'

  def get_uri(expnum, ccd=None, version='p', ext='fits', subdir=None, prefix=None):
      if subdir is None:
          subdir = str(expnum)
      if prefix is None:
          prefix = ''
      uri = os.path.join(DBIMAGES, subdir)

      if ext is None:
          ext = ''
      elif len(ext) > 0 and ext[0] != '.':
          ext = '.'+ext

      # if ccd is None then we send uri for the MEF
      if ccd is not None:
          ccd = str(ccd).zfill(2)
          uri = os.path.join(uri, 'ccd%s' % (ccd),
                             '%s%s%s%s%s' % (prefix, str(expnum), version, ccd, ext))
      else:
          uri = os.path.join(uri, '%s%s%s%s' % (prefix, str(expnum), version, ext))
      return uri
  \<close>
  \<open>os_path_join\<close> is \<open>posixpath.join\<close>: a component that starts with a slash replaces the
  path built so far; otherwise it is appended, after a slash unless the path is empty or
  ends with one. \<open>zfill\<close> is \<open>str.zfill\<close>: zeros on the left up to the width, after the
  sign if there is one. The exposure number and the CCD number are integers.
\<close>

definition DBIMAGES :: string where
  "DBIMAGES = ''vos:OSSOS/dbimages''"

definition join2 :: "string \<Rightarrow> string \<Rightarrow> string" where
  "join2 path b =
     (if b \<noteq> [] \<and> hd b = CHR ''/'' then b
      else if path = [] \<or> last path = CHR ''/'' then path @ b
      else path @ ''/'' @ b)"

definition os_path_join :: "string \<Rightarrow> string list \<Rightarrow> string" where
  "os_path_join a p = foldl join2 a p"

definition zfill :: "nat \<Rightarrow> string \<Rightarrow> string" where
  "zfill width s =
     (if width \<le> length s then s
      else case s of
             c # cs \<Rightarrow> if c = CHR ''+'' \<or> c = CHR ''-''
                       then c # replicate (width - length s) CHR ''0'' @ cs
                       else replicate (width - length s) CHR ''0'' @ s
           | [] \<Rightarrow> replicate width CHR ''0'')"

definition get_uri ::
  "int \<Rightarrow> int option \<Rightarrow> string \<Rightarrow> string option \<Rightarrow> string option \<Rightarrow> string option \<Rightarrow> string" where
  "get_uri expnum ccd version ext subdir prefix =
     (let subdir1 = (case subdir of None \<Rightarrow> str_int expnum | Some s \<Rightarrow> s);
          prefix1 = (case prefix of None \<Rightarrow> [] | Some p \<Rightarrow> p);
          uri = os_path_join DBIMAGES [subdir1];
          ext1 = (case ext of
                    None \<Rightarrow> []
                  | Some e \<Rightarrow> if length e > 0 \<and> e ! 0 \<noteq> CHR ''.'' then ''.'' @ e else e)
      in case ccd of
           Some n \<Rightarrow>
             (let ccd1 = zfill 2 (str_int n)
              in os_path_join uri
                   [''ccd'' @ ccd1, prefix1 @ str_int expnum @ version @ ccd1 @ ext1])
         | None \<Rightarrow> os_path_join uri [prefix1 @ str_int expnum @ version @ ext1])"

section \<open>pymop/astrometry/daophot.py: phot and phot_mag\<close>

text \<open>
  \<open>phot\<close> reads the image header and the file \<open>zeropoint.used\<close>, runs the IRAF tasks and
  parses the lines that \<open>iraf.pdump\<close> prints. The environment of one call is a record: the
  \<open>FILTER\<close> and \<open>PHOTZP\<close> header cards when present, the contents of \<open>zeropoint.used\<close> when
  \<open>os.access(zpu_file, os.R_OK)\<close> holds, and the lines of \<open>pdump_out\<close>. Python's \<open>float()\<close>
  and \<open>int()\<close> on a string are parameters \<open>float_of_str\<close> and \<open>int_of_str\<close> (\<open>None\<close> where
  they raise \<open>ValueError\<close>). Python floats are modelled by \<open>real\<close>. The IRAF calls and
  the removal of the temporary files are outside the model: they read \<open>zmag\<close> and produce
  \<open>pdump_out\<close>, and change neither.
  \<^verbatim>\<open>
      filter = hdulist_in[0].header.get('FILTER', 'DEFAULT')
      zeropoints = {"I": 25.77, "R": 26.07, "V": 26.07, "B": 25.92,
                    "DEFAULT": 26.0, "g.MP9401": 26.4}
      if not filter in zeropoints:
          filter = "DEFAULT"
      zmag = hdulist_in[0].header.get('PHOTZP', zeropoints[filter])
      ...
      zpu_file = "zeropoint.used"
      if os.access(zpu_file, os.R_OK):
          with open(zpu_file) as zpu_fh:
              zmag = float(zpu_fh.read())
  \<close>
\<close>

datatype cell = CStr string | CFlt real | CInt int

record phot_env =
  header_FILTER :: "string option"
  header_PHOTZP :: "real option"
  zeropoint_used :: "string option"
  pdump_out :: "string list"

definition zeropoints :: "(string \<times> real) list" where
  "zeropoints = [(''I'', 25.77), (''R'', 26.07), (''V'', 26.07), (''B'', 25.92),
                 (''DEFAULT'', 26.0), (''g.MP9401'', 26.4)]"

definition phot_zmag :: "(string \<Rightarrow> real option) \<Rightarrow> phot_env \<Rightarrow> py_error + real" where
  "phot_zmag float_of_str env =
     (let filter0 = (case header_FILTER env of None \<Rightarrow> ''DEFAULT'' | Some f \<Rightarrow> f);
          filter1 = (if map_of zeropoints filter0 = None then ''DEFAULT'' else filter0)
      in case map_of zeropoints filter1 of
           None \<Rightarrow> Inl KeyError
         | Some dflt \<Rightarrow>
             (let zmag = (case header_PHOTZP env of None \<Rightarrow> dflt | Some z \<Rightarrow> z)
              in case zeropoint_used env of
                   None \<Rightarrow> Inr zmag
                 | Some s \<Rightarrow>
                     (case float_of_str s of None \<Rightarrow> Inl ValueError | Some z \<Rightarrow> Inr z)))"

text \<open>
  \<^verbatim>\<open>
      hdu['order'] = ['X', 'Y', 'MAG', 'MERR', 'ID', 'XSHIFT', 'YSHIFT', 'LID']
      hdu['format'] = {'X': '%10.2f', 'Y': '%10.2f', 'MAG': '%10.2f', 'MERR': '%10.2f',
                       'ID': '%8d', 'XSHIFT': '%10.2f', 'YSHIFT': '%10.2f', 'LID': '%8d'}
      hdu['data'] = {}
      for col in hdu['order']:
          hdu['data'][col] = []

      for line in pdump_out:
          values = line.split()
          for col in hdu['order']:
              if re.match('\%.*f', hdu['format'][col]):
                  if col == 'MAG':
                      values[0] = float(values[0]) - float(apcor)
                  hdu['data'][col].append(float(values.pop(0)))
              elif re.match('\%.*d', hdu['format'][col]):
                  hdu['data'][col].append(int(values.pop(0)))
              else:
                  hdu['data'][col].append(values.pop(0))
      return hdu

  def phot_mag(*args, **kwargs):
      hdu = phot(*args, **kwargs)
      return hdu["data"]["MAG"][0]
  \<close>
  \<open>split\<close> is \<open>str.split()\<close>: the maximal runs of characters that are not white space.
  \<open>re_match_pct c fmt\<close> is \<open>re.match('\%.*c', fmt)\<close>: a percent sign first, then the
  character \<open>c\<close> somewhere before the first newline. An entry of \<open>values\<close> is a \<open>cell\<close>: a
  string as split from the line, or the float that the \<open>MAG\<close> branch stores back.
\<close>

definition is_space :: "char \<Rightarrow> bool" where
  "is_space c = (c \<in> set [CHR '' '', CHR 0x09, CHR 0x0A, CHR 0x0B, CHR 0x0C, CHR 0x0D])"

fun split_acc :: "string \<Rightarrow> string \<Rightarrow> string list" where
  "split_acc cur [] = (if cur = [] then [] else [cur])"
| "split_acc cur (c # cs) =
     (if is_space c then (if cur = [] then split_acc [] cs else cur # split_acc [] cs)
      else split_acc (cur @ [c]) cs)"

definition split :: "string \<Rightarrow> string list" where
  "split line = split_acc [] line"

definition order :: "string list" where
  "order = [''X'', ''Y'', ''MAG'', ''MERR'', ''ID'', ''XSHIFT'', ''YSHIFT'', ''LID'']"

definition format :: "(string \<times> string) list" where
  "format = [(''X'', ''%10.2f''), (''Y'', ''%10.2f''), (''MAG'', ''%10.2f''),
             (''MERR'', ''%10.2f''), (''ID'', ''%8d''), (''XSHIFT'', ''%10.2f''),
             (''YSHIFT'', ''%10.2f''), (''LID'', ''%8d'')]"

definition re_match_pct :: "char \<Rightarrow> string \<Rightarrow> bool" where
  "re_match_pct c fmt =
     (case fmt of [] \<Rightarrow> False
      | p # rest \<Rightarrow> p = CHR ''%'' \<and> c \<in> set (takeWhile (\<lambda>x. x \<noteq> CHR 0x0A) rest))"

fun py_float :: "(string \<Rightarrow> real option) \<Rightarrow> cell \<Rightarrow> py_error + real" where
  "py_float float_of_str (CStr s) =
     (case float_of_str s of None \<Rightarrow> Inl ValueError | Some r \<Rightarrow> Inr r)"
| "py_float float_of_str (CFlt r) = Inr r"
| "py_float float_of_str (CInt i) = Inr (of_int i)"

fun py_int :: "(string \<Rightarrow> int option) \<Rightarrow> cell \<Rightarrow> py_error + int" where
  "py_int int_of_str (CStr s) =
     (case int_of_str s of None \<Rightarrow> Inl ValueError | Some i \<Rightarrow> Inr i)"
| "py_int int_of_str (CFlt r) = Inr (if 0 \<le> r then \<lfloor>r\<rfloor> else \<lceil>r\<rceil>)"
| "py_int int_of_str (CInt i) = Inr i"

type_synonym columns = "string \<rightharpoonup> cell list"

definition append_col :: "columns \<Rightarrow> string \<Rightarrow> cell \<Rightarrow> py_error + columns" where
  "append_col data col x =
     (case data col of None \<Rightarrow> Inl KeyError | Some xs \<Rightarrow> Inr (data(col \<mapsto> xs @ [x])))"

definition phot_col ::
  "(string \<Rightarrow> real option) \<Rightarrow> (string \<Rightarrow> int option) \<Rightarrow> real \<Rightarrow>
   cell list \<times> columns \<Rightarrow> string \<Rightarrow> py_error + cell list \<times> columns" where
  "phot_col float_of_str int_of_str apcor st col =
     (let (vals, data) = st
      in case map_of format col of
           None \<Rightarrow> Inl KeyError
         | Some fmt \<Rightarrow>
             if re_match_pct CHR ''f'' fmt then
               (case (if col = ''MAG'' then
                        (case vals of
                           [] \<Rightarrow> Inl IndexError
                         | v # vs \<Rightarrow>
                             (case py_float float_of_str v of
                                Inl e \<Rightarrow> Inl e
                              | Inr m \<Rightarrow> Inr (CFlt (m - apcor) # vs)))
                      else Inr vals) of
                  Inl e \<Rightarrow> Inl e
                | Inr vals' \<Rightarrow>
                    (case vals' of
                       [] \<Rightarrow> Inl IndexError
                     | v # vs \<Rightarrow>
                         (case py_float float_of_str v of
                            Inl e \<Rightarrow> Inl e
                          | Inr x \<Rightarrow>
                              (case append_col data col (CFlt x) of
                                 Inl e \<Rightarrow> Inl e
                               | Inr data' \<Rightarrow> Inr (vs, data')))))
             else if re_match_pct CHR ''d'' fmt then
               (case vals of
                  [] \<Rightarrow> Inl IndexError
                | v # vs \<Rightarrow>
                    (case py_int int_of_str v of
                       Inl e \<Rightarrow> Inl e
                     | Inr i \<Rightarrow>
                         (case append_col data col (CInt i) of
                            Inl e \<Rightarrow> Inl e
                          | Inr data' \<Rightarrow> Inr (vs, data'))))
             else
               (case vals of
                  [] \<Rightarrow> Inl IndexError
                | v # vs \<Rightarrow>
                    (case append_col data col v of
                       Inl e \<Rightarrow> Inl e
                     | Inr data' \<Rightarrow> Inr (vs, data'))))"

fun phot_cols ::
  "(string \<Rightarrow> real option) \<Rightarrow> (string \<Rightarrow> int option) \<Rightarrow> real \<Rightarrow>
   cell list \<times> columns \<Rightarrow> string list \<Rightarrow> py_error + cell list \<times> columns" where
  "phot_cols float_of_str int_of_str apcor st [] = Inr st"
| "phot_cols float_of_str int_of_str apcor st (col # cols) =
     (case phot_col float_of_str int_of_str apcor st col of
        Inl e \<Rightarrow> Inl e
      | Inr st' \<Rightarrow> phot_cols float_of_str int_of_str apcor st' cols)"

fun phot_lines ::
  "(string \<Rightarrow> real option) \<Rightarrow> (string \<Rightarrow> int option) \<Rightarrow> real \<Rightarrow>
   columns \<Rightarrow> string list \<Rightarrow> py_error + columns" where
  "phot_lines float_of_str int_of_str apcor data [] = Inr data"
| "phot_lines float_of_str int_of_str apcor data (line # lines) =
     (case phot_cols float_of_str int_of_str apcor (map CStr (split line), data) order of
        Inl e \<Rightarrow> Inl e
      | Inr (vals, data') \<Rightarrow> phot_lines float_of_str int_of_str apcor data' lines)"

record hdu =
  aper_cor :: real
  zeropoint :: real
  data :: columns

definition phot ::
  "(string \<Rightarrow> real option) \<Rightarrow> (string \<Rightarrow> int option) \<Rightarrow> phot_env \<Rightarrow> real \<Rightarrow> py_error + hdu" where
  "phot float_of_str int_of_str env apcor =
     (case phot_zmag float_of_str env of
        Inl e \<Rightarrow> Inl e
      | Inr zmag \<Rightarrow>
          (case phot_lines float_of_str int_of_str apcor
                  (map_of (map (\<lambda>col. (col, [])) order)) (pdump_out env) of
             Inl e \<Rightarrow> Inl e
           | Inr d \<Rightarrow> Inr \<lparr>aper_cor = apcor, zeropoint = zmag, data = d\<rparr>))"

definition phot_mag ::
  "(string \<Rightarrow> real option) \<Rightarrow> (string \<Rightarrow> int option) \<Rightarrow> phot_env \<Rightarrow> real \<Rightarrow> py_error + cell" where
  "phot_mag float_of_str int_of_str env apcor =
     (case phot float_of_str int_of_str env apcor of
        Inl e \<Rightarrow> Inl e
      | Inr h \<Rightarrow>
          (case data h ''MAG'' of
             None \<Rightarrow> Inl KeyError
           | Some [] \<Rightarrow> Inl IndexError
           | Some (m # ms) \<Rightarrow> Inr m))"

section \<open>pipeline/astrom_mag_check.py: match_lists\<close>

text \<open>
  \<^verbatim>\<open>
  MATCH_TOLERANCE = 100.0

  def match_lists(pos1, pos2, tolerance=MATCH_TOLERANCE):
      assert isinstance(pos1, numpy.ndarray)
      assert isinstance(pos2, numpy.ndarray)

      npts1 = len(pos1[:, 0])
      pos1_idx_array = numpy.arange(npts1, dtype=numpy.int16)
      npts2 = len(pos2[:, 0])
      pos2_idx_array = numpy.arange(npts2, dtype=numpy.int16)

      match = numpy.ma.zeros(npts1, dtype=numpy.int16)
      match.mask = True

      for idx1 in range(npts1):
          sep = numpy.sqrt((pos2[:, 0] - pos1[idx1, 0]) ** 2 + (pos2[:, 1] - pos1[idx1, 1]) ** 2)
          match_condition = numpy.all((sep <= tolerance, sep == sep.min()), axis=0)
          match_group_1 = pos2_idx_array[match_condition]
          for idx2 in match_group_1:
              sep = numpy.sqrt((pos1[:, 0] - pos2[idx2, 0]) ** 2 + (pos1[:, 1] - pos2[idx2, 1]) ** 2)
              match_condition = numpy.all((sep <= tolerance, sep == sep.min()), axis=0)
              match_group_2 = pos1_idx_array[match_condition]
              if idx1 in match_group_2:
                  match[idx1] = idx2
                  break
      return match
  \<close>
  A two-column array is a list of rows \<open>(x, y)\<close>. Coordinates, separations and the
  tolerance are floating-point numbers: values of a linearly ordered type \<open>'f\<close>, that is,
  without NaN, and with the two zeros as one value. The arithmetic of numpy on them is
  the parameter \<open>ar\<close>: \<open>fsub\<close> is \<open>a - b\<close>, \<open>fsquare\<close> is \<open>x ** 2\<close>, \<open>fadd\<close> is \<open>a + b\<close> and
  \<open>fsqrt\<close> is \<open>numpy.sqrt\<close>; comparisons and \<open>sep.min()\<close> are those of the order. The
  two index arrays hold 16-bit signed integers: \<open>idx16 k\<close> is entry \<open>k\<close> of
  \<open>numpy.arange(n, dtype=numpy.int16)\<close>, which wraps around from 32768 on. \<open>row\<close> is
  \<open>pos[i]\<close> for such an index, counted from the end when it is negative. \<open>amin\<close> is
  \<open>sep.min()\<close>, which raises \<open>ValueError\<close> on an empty array. \<open>match_group\<close> is the three
  lines that both loops share: the separations from one point to every row of an array,
  the condition, and the indices selected by it. The masked array returned is a list of
  options: \<open>None\<close> for an entry still masked, \<open>Some j\<close> for an entry set to \<open>j\<close>.
  \<open>outer_loop\<close> reads \<open>pos1[idx1]\<close> for \<open>idx1\<close> in \<open>range(npts1)\<close> only.
\<close>

record 'f arith =
  fsub :: "'f \<Rightarrow> 'f \<Rightarrow> 'f"
  fsquare :: "'f \<Rightarrow> 'f"
  fadd :: "'f \<Rightarrow> 'f \<Rightarrow> 'f"
  fsqrt :: "'f \<Rightarrow> 'f"

type_synonym 'f xy = "'f \<times> 'f"

definition idx16 :: "nat \<Rightarrow> int" where
  "idx16 k = sint (word_of_nat k :: 16 word)"

definition arange16 :: "nat \<Rightarrow> int list" where
  "arange16 n = map idx16 [0..<n]"

definition row :: "'a list \<Rightarrow> int \<Rightarrow> py_error + 'a" where
  "row pos i =
     (let n = int (length pos); j = (if i < 0 then n + i else i)
      in if 0 \<le> j \<and> j < n then Inr (pos ! nat j) else Inl IndexError)"

definition euclid :: "'f arith \<Rightarrow> 'f xy \<Rightarrow> 'f xy \<Rightarrow> 'f" where
  "euclid ar p q =
     fsqrt ar (fadd ar (fsquare ar (fsub ar (fst q) (fst p)))
                       (fsquare ar (fsub ar (snd q) (snd p))))"

definition separation :: "'f arith \<Rightarrow> 'f xy \<Rightarrow> 'f xy list \<Rightarrow> 'f list" where
  "separation ar p pos = map (euclid ar p) pos"

fun amin :: "'f::linorder list \<Rightarrow> py_error + 'f" where
  "amin [] = Inl ValueError"
| "amin (x # xs) = Inr (fold min xs x)"

definition match_condition :: "'f::linorder \<Rightarrow> 'f list \<Rightarrow> 'f \<Rightarrow> bool list" where
  "match_condition tolerance sep m = map (\<lambda>s. s \<le> tolerance \<and> s = m) sep"

definition take_where :: "int list \<Rightarrow> bool list \<Rightarrow> int list" where
  "take_where idx_array cond = map fst (filter snd (zip idx_array cond))"

definition match_group ::
  "'f::linorder arith \<Rightarrow> 'f xy list \<Rightarrow> 'f xy \<Rightarrow> 'f \<Rightarrow> py_error + int list" where
  "match_group ar pos p tolerance =
     (let sep = separation ar p pos
      in case amin sep of
           Inl e \<Rightarrow> Inl e
         | Inr m \<Rightarrow> Inr (take_where (arange16 (length pos)) (match_condition tolerance sep m)))"

fun inner_loop ::
  "'f::linorder arith \<Rightarrow> 'f xy list \<Rightarrow> 'f xy list \<Rightarrow> 'f \<Rightarrow> nat \<Rightarrow> int list \<Rightarrow>
   py_error + int option" where
  "inner_loop ar pos1 pos2 tolerance idx1 [] = Inr None"
| "inner_loop ar pos1 pos2 tolerance idx1 (idx2 # rest) =
     (case row pos2 idx2 of
        Inl e \<Rightarrow> Inl e
      | Inr q \<Rightarrow>
          (case match_group ar pos1 q tolerance of
             Inl e \<Rightarrow> Inl e
           | Inr match_group_2 \<Rightarrow>
               if int idx1 \<in> set match_group_2 then Inr (Some idx2)
               else inner_loop ar pos1 pos2 tolerance idx1 rest))"

fun outer_loop ::
  "'f::linorder arith \<Rightarrow> 'f xy list \<Rightarrow> 'f xy list \<Rightarrow> 'f \<Rightarrow> nat list \<Rightarrow>
   py_error + int option list" where
  "outer_loop ar pos1 pos2 tolerance [] = Inr []"
| "outer_loop ar pos1 pos2 tolerance (idx1 # later) =
     (case match_group ar pos2 (pos1 ! idx1) tolerance of
        Inl e \<Rightarrow> Inl e
      | Inr match_group_1 \<Rightarrow>
          (case inner_loop ar pos1 pos2 tolerance idx1 match_group_1 of
             Inl e \<Rightarrow> Inl e
           | Inr entry \<Rightarrow>
               (case outer_loop ar pos1 pos2 tolerance later of
                  Inl e \<Rightarrow> Inl e
                | Inr entries \<Rightarrow> Inr (entry # entries))))"

definition match_lists ::
  "'f::linorder arith \<Rightarrow> 'f xy list \<Rightarrow> 'f xy list \<Rightarrow> 'f \<Rightarrow> py_error + int option list" where
  "match_lists ar pos1 pos2 tolerance = outer_loop ar pos1 pos2 tolerance [0..<length pos1]"

text \<open>
  The properties of \<open>match_lists\<close> are stated with three predicates. \<open>mutual\<close>: the
  separation of row \<open>i\<close> of \<open>pos1\<close> and row \<open>j\<close> of \<open>pos2\<close>, as the arithmetic computes it,
  is within the tolerance, no row of \<open>pos2\<close> has a smaller one from \<open>pos1[i]\<close> and no row of
  \<open>pos1\<close> has a smaller one from \<open>pos2[j]\<close>. \<open>nearest_back\<close> is the half of
  it that the inner loop tests, and \<open>entry_ok\<close> says what one entry of the result means.
\<close>

definition mutual ::
  "'f::linorder arith \<Rightarrow> 'f xy list \<Rightarrow> 'f xy list \<Rightarrow> 'f \<Rightarrow> nat \<Rightarrow> nat \<Rightarrow> bool" where
  "mutual ar pos1 pos2 tolerance i j =
     (euclid ar (pos1 ! i) (pos2 ! j) \<le> tolerance \<and>
      (\<forall>j' < length pos2. euclid ar (pos1 ! i) (pos2 ! j) \<le> euclid ar (pos1 ! i) (pos2 ! j')) \<and>
      (\<forall>i' < length pos1. euclid ar (pos1 ! i) (pos2 ! j) \<le> euclid ar (pos1 ! i') (pos2 ! j)))"

definition nearest_back ::
  "'f::linorder arith \<Rightarrow> 'f xy list \<Rightarrow> 'f xy list \<Rightarrow> 'f \<Rightarrow> nat \<Rightarrow> nat \<Rightarrow> bool" where
  "nearest_back ar pos1 pos2 t i k =
     (euclid ar (pos2 ! k) (pos1 ! i) \<le> t \<and>
      (\<forall>i' < length pos1. euclid ar (pos2 ! k) (pos1 ! i) \<le> euclid ar (pos2 ! k) (pos1 ! i')))"

definition entry_ok ::
  "'f::linorder arith \<Rightarrow> 'f xy list \<Rightarrow> 'f xy list \<Rightarrow> 'f \<Rightarrow> nat \<Rightarrow> int option \<Rightarrow> bool" where
  "entry_ok ar pos1 pos2 t i entry =
     (case entry of
        None \<Rightarrow> \<forall>j < length pos2. \<not> mutual ar pos1 pos2 t i j
      | Some j \<Rightarrow> 0 \<le> j \<and> nat j < length pos2 \<and> mutual ar pos1 pos2 t i (nat j))"

text \<open>
  \<open>float64\<close> is the arithmetic of IEEE 754 binary64 numbers with rounding to nearest, ties
  to even, which numpy uses for arrays of Python floats, on the values in the normal range
  and zero, where no result overflows or underflows: every operation is the exact one
  followed by \<open>round64\<close>, the rounding to 53 significant bits. A binary64 number is
  modelled by the real number it stands for.
\<close>

definition round_even :: "real \<Rightarrow> int" where
  "round_even y =
     (let f = \<lfloor>y\<rfloor>; d = y - of_int f
      in if d < 1 / 2 then f
         else if 1 / 2 < d then f + 1
         else if even f then f else f + 1)"

definition round64 :: "real \<Rightarrow> real" where
  "round64 x =
     (if x = 0 then 0
      else let e = \<lfloor>log 2 \<bar>x\<bar>\<rfloor>; u = 2 powr (of_int e - 52)
           in of_int (round_even (x / u)) * u)"

definition float64 :: "real arith" where
  "float64 =
     \<lparr>fsub = (\<lambda>a b. round64 (a - b)), fsquare = (\<lambda>x. round64 (x * x)),
      fadd = (\<lambda>a b. round64 (a + b)), fsqrt = (\<lambda>x. round64 (sqrt x))\<rparr>"

section \<open>Properties of copy\<close>

lemma caught_raised: "caught r \<Longrightarrow> raised r"
  by (cases r) simp_all

lemma copy_loop_spec:
  assumes "1 \<le> count" "count \<le> MAX_RETRY" "copy_loop client calls count = (res, n)"
  shows "calls < n \<and> n \<le> calls + (MAX_RETRY + 1 - count) \<and> res = client (n - 1) \<and>
         (\<forall>k. calls \<le> k \<and> k < n - 1 \<longrightarrow> caught (client k)) \<and>
         (caught res \<longrightarrow> n = calls + (MAX_RETRY + 1 - count))"
  using assms
proof (induction client calls count rule: copy_loop.induct)
  case (1 client calls count)
  note unfold = copy_loop.simps [of client calls count]
  show ?case
  proof (cases "client calls")
    case (Returned v)
    with "1.prems"(3) have "res = Returned v" "n = Suc calls"
      by (simp_all add: unfold)
    with Returned "1.prems"(2) show ?thesis by auto
  next
    case (RaisedOther b)
    with "1.prems"(3) have "res = RaisedOther b" "n = Suc calls"
      by (simp_all add: unfold)
    with RaisedOther "1.prems"(2) show ?thesis by auto
  next
    case (RaisedException ex)
    show ?thesis
    proof (cases "count + 1 > MAX_RETRY")
      case True
      with RaisedException "1.prems"(3) have "res = RaisedException ex" "n = Suc calls"
        by (simp_all add: unfold Let_def)
      moreover from True "1.prems"(2) have "count = MAX_RETRY" by simp
      ultimately show ?thesis using RaisedException by auto
    next
      case False
      with RaisedException "1.prems"(3)
      have rec: "copy_loop client (Suc calls) (count + 1) = (res, n)"
        by (simp add: unfold Let_def)
      from False have le: "count + 1 \<le> MAX_RETRY" by simp
      have one: "1 \<le> count + 1" by simp
      have IH: "Suc calls < n \<and> n \<le> Suc calls + (MAX_RETRY + 1 - (count + 1)) \<and>
                res = client (n - 1) \<and>
                (\<forall>k. Suc calls \<le> k \<and> k < n - 1 \<longrightarrow> caught (client k)) \<and>
                (caught res \<longrightarrow> n = Suc calls + (MAX_RETRY + 1 - (count + 1)))"
        by (rule "1.IH" [OF RaisedException refl False one le rec])
      have first: "caught (client calls)" using RaisedException by simp
      have all: "\<forall>k. calls \<le> k \<and> k < n - 1 \<longrightarrow> caught (client k)"
      proof (intro allI impI)
        fix k assume k: "calls \<le> k \<and> k < n - 1"
        show "caught (client k)"
        proof (cases "k = calls")
          case True then show ?thesis using first by simp
        next
          case False
          with k have "Suc calls \<le> k \<and> k < n - 1" by simp
          with IH show ?thesis by blast
        qed
      qed
      from IH have i1: "Suc calls < n" by blast
      from IH have i2: "n \<le> Suc calls + (MAX_RETRY + 1 - (count + 1))" by blast
      have b1: "calls < n" using i1 by arith
      have b2: "n \<le> calls + (MAX_RETRY + 1 - count)" using i2 le by arith
      have b3: "res = client (n - 1)" using IH by blast
      have b4: "caught res \<longrightarrow> n = calls + (MAX_RETRY + 1 - count)"
      proof
        assume "caught res"
        with IH have "n = Suc calls + (MAX_RETRY + 1 - (count + 1))" by blast
        with le show "n = calls + (MAX_RETRY + 1 - count)" by arith
      qed
      from b1 b2 b3 all b4 show ?thesis by blast
    qed
  qed
qed

text \<open>
  C2, as the code has it. \<open>copy\<close> is a bounded retry loop around the single remote call:
  it always ends, after at least one and at most \<open>MAX_RETRY = 10\<close> calls; its outcome is
  the outcome of the last call made; every earlier call raised an instance of \<open>Exception\<close>
  and was retried; an instance of \<open>Exception\<close> is re-raised only once all ten attempts
  are used up; and \<open>copy\<close> raises if and only if every call it made raised. What is
  raised and is not an instance of \<open>Exception\<close> is not retried: it ends \<open>copy\<close> with the
  call that raised it.
\<close>

theorem copy_bounded_retry:
  assumes "copy client = (res, n)"
  shows "1 \<le> n \<and> n \<le> MAX_RETRY \<and> MAX_RETRY = 10 \<and> res = client (n - 1) \<and>
         (\<forall>k < n - 1. caught (client k)) \<and>
         (\<forall>k < n. \<not> caught (client k) \<longrightarrow> k = n - 1) \<and>
         (caught res \<longrightarrow> n = MAX_RETRY) \<and>
         (raised res \<longleftrightarrow> (\<forall>k < n. raised (client k)))"
proof -
  have h: "copy_loop client 0 1 = (res, n)" using assms by (simp add: copy_def)
  have s: "0 < n \<and> n \<le> 0 + (MAX_RETRY + 1 - 1) \<and> res = client (n - 1) \<and>
           (\<forall>k. 0 \<le> k \<and> k < n - 1 \<longrightarrow> caught (client k)) \<and>
           (caught res \<longrightarrow> n = 0 + (MAX_RETRY + 1 - 1))"
    by (rule copy_loop_spec [OF _ _ h]) (simp_all add: MAX_RETRY_def)
  from s have s1: "0 < n" by blast
  from s have s2: "n \<le> 0 + (MAX_RETRY + 1 - 1)" by blast
  from s have s5: "caught res \<longrightarrow> n = 0 + (MAX_RETRY + 1 - 1)" by blast
  have n1: "1 \<le> n" using s1 by arith
  have n2: "n \<le> MAX_RETRY" using s2 by arith
  have last: "res = client (n - 1)" using s by blast
  have early: "\<forall>k < n - 1. caught (client k)" using s by blast
  have full: "caught res \<longrightarrow> n = MAX_RETRY" using s5 by simp
  have iff: "raised res \<longleftrightarrow> (\<forall>k < n. raised (client k))"
  proof
    assume r: "raised res"
    show "\<forall>k < n. raised (client k)"
    proof (intro allI impI)
      fix k assume "k < n"
      then have "k < n - 1 \<or> k = n - 1" by arith
      then show "raised (client k)"
      proof
        assume "k < n - 1"
        with early have "caught (client k)" by blast
        then show ?thesis by (rule caught_raised)
      next
        assume "k = n - 1" with last r show ?thesis by simp
      qed
    qed
  next
    assume a: "\<forall>k < n. raised (client k)"
    from n1 have "n - 1 < n" by simp
    with a have "raised (client (n - 1))" by blast
    with last show "raised res" by simp
  qed
  have m: "MAX_RETRY = 10" by (simp add: MAX_RETRY_def)
  have only_last: "\<forall>k < n. \<not> caught (client k) \<longrightarrow> k = n - 1"
  proof (intro allI impI)
    fix k assume k: "k < n" and nc: "\<not> caught (client k)"
    show "k = n - 1"
    proof (rule ccontr)
      assume "k \<noteq> n - 1"
      with k have "k < n - 1" by arith
      with early have "caught (client k)" by blast
      with nc show False by blast
    qed
  qed
  from n1 n2 m last early only_last full iff show ?thesis by blast
qed

theorem copy_bounded_retry_witness:
  "copy (\<lambda>k. if k < 2 then RaisedException ''timeout'' else Returned (7::nat)) = (Returned 7, 3) \<and>
   copy (\<lambda>k. RaisedException ''timeout'' :: (string, nat) call_result) =
     (RaisedException ''timeout'', 10) \<and>
   (1::nat) \<le> 3 \<and> 3 \<le> MAX_RETRY \<and>
   \<not> raised (Returned (7::nat) :: (string, nat) call_result)"
proof -
  let ?client = "\<lambda>k::nat. if k < 2 then RaisedException ''timeout'' else Returned (7::nat)"
  let ?down = "\<lambda>k::nat. RaisedException ''timeout'' :: (string, nat) call_result"
  have h: "copy ?client = (Returned 7, 3)"
    by (simp add: copy_def copy_loop.simps MAX_RETRY_def)
  have d: "copy ?down = (RaisedException ''timeout'', 10)"
    by (simp add: copy_def copy_loop.simps MAX_RETRY_def)
  from copy_bounded_retry [OF h] copy_bounded_retry [OF d] show ?thesis using h d by simp
qed

text \<open>
  The claim C2 as stated fails where it says that any exception is retried: a
  \<open>KeyboardInterrupt\<close> raised by the first call is not caught by \<open>except Exception\<close>, and
  \<open>copy\<close> ends after that one call, although the second call would have returned.
\<close>

theorem copy_other_not_retried:
  "copy (\<lambda>k. if k = 0 then RaisedOther ''KeyboardInterrupt'' else Returned (7::nat)) =
     (RaisedOther ''KeyboardInterrupt'', 1) \<and>
   (\<lambda>k::nat. if k = 0 then RaisedOther ''KeyboardInterrupt'' else Returned (7::nat)) 1 =
     Returned 7"
  by (simp add: copy_def copy_loop.simps)

section \<open>Properties of SyncingVOFile\<close>

lemma contents_vo_step:
  "contents (local_filehandle (vo_step f c)) = contents (local_filehandle f) @ written [c]"
  by (cases c)
     (simp_all add: vo_read_def vo_write_def vo_seek_def vo_flush_def fh_read_def fh_seek_def
        fh_write_def)

lemma written_Cons: "written (c # cs) = written [c] @ written cs"
  by (cases c) simp_all

lemma contents_run:
  "contents (local_filehandle (run f cs)) = contents (local_filehandle f) @ written cs"
proof (induction cs arbitrary: f)
  case Nil
  show ?case by simp
next
  case (Cons c cs)
  have "contents (local_filehandle (run f (c # cs))) =
        contents (local_filehandle (vo_step f c)) @ written cs"
    using Cons.IH [of "vo_step f c"] by simp
  also have "\<dots> = (contents (local_filehandle f) @ written [c]) @ written cs"
    by (simp only: contents_vo_step)
  also have "\<dots> = contents (local_filehandle f) @ written (c # cs)"
    by (simp add: written_Cons [of c cs])
  finally show ?case .
qed

lemma vo_read_all: "fst (vo_read f) = contents (local_filehandle f)"
  by (simp add: vo_read_def fh_read_def fh_seek_def)

text \<open>
  C10. After any sequence of \<open>read\<close>, \<open>write\<close>, \<open>seek\<close> and \<open>flush\<close> calls, \<open>read()\<close>
  returns the initial contents followed by everything written, in the order of the
  writes; \<open>seek\<close> leaves the file as it is; and a \<open>write(c)\<close> puts \<open>c\<close> after all that
  a \<open>read()\<close> returned before it.
\<close>

theorem syncing_vofile_append_only:
  "fst (vo_read (run f cs)) = contents (local_filehandle f) @ written cs \<and>
   vo_seek offset f = f \<and>
   fst (vo_read (vo_write c (run f cs))) = fst (vo_read (run f cs)) @ c"
proof -
  have a: "fst (vo_read (run f cs)) = contents (local_filehandle f) @ written cs"
    by (simp only: vo_read_all contents_run)
  have b: "vo_seek offset f = f" by (simp add: vo_seek_def)
  have c: "fst (vo_read (vo_write c (run f cs))) = fst (vo_read (run f cs)) @ c"
    by (simp add: vo_read_all vo_write_def fh_write_def)
  from a b c show ?thesis by blast
qed

theorem syncing_vofile_append_only_witness:
  "fst (vo_read (run \<lparr>local_filehandle = \<lparr>contents = ''ab'', position = 0\<rparr>, remote = None\<rparr>
          [Write ''cd'', Read, Seek 1, Write ''ef'', Flush])) = ''abcdef''"
  using syncing_vofile_append_only
    [of "\<lparr>local_filehandle = \<lparr>contents = ''ab'', position = 0\<rparr>, remote = None\<rparr>"
        "[Write ''cd'', Read, Seek 1, Write ''ef'', Flush]" 0 "''x''"]
  by simp

section \<open>Properties of datasec_to_list and reset_datasec\<close>

lemma is_digit_digit_char: "d < 10 \<Longrightarrow> is_digit (digit_char d)"
proof -
  assume "d < 10"
  then have "d \<in> {0, 1, 2, 3, 4, 5, 6, 7, 8, 9}" by auto
  then show ?thesis by (auto simp: is_digit_def digit_char_def)
qed

lemma digit_value_digit_char: "d < 10 \<Longrightarrow> digit_value (digit_char d) = d"
proof -
  assume "d < 10"
  then have "d \<in> {0, 1, 2, 3, 4, 5, 6, 7, 8, 9}" by auto
  then show ?thesis by (auto simp: digit_value_def digit_char_def)
qed

lemma str_nat_digits: "str_nat n \<noteq> [] \<and> list_all is_digit (str_nat n)"
proof (induction n rule: str_nat.induct)
  case (1 n)
  show ?case
  proof (cases "n < 10")
    case True
    then show ?thesis by (simp add: str_nat.simps [of n] is_digit_digit_char)
  next
    case False
    with 1 show ?thesis by (simp add: str_nat.simps [of n] is_digit_digit_char)
  qed
qed

lemma nat_of_digits_snoc: "nat_of_digits (ds @ [c]) = 10 * nat_of_digits ds + digit_value c"
  by (simp add: nat_of_digits_def)

lemma nat_of_digits_str_nat: "nat_of_digits (str_nat n) = n"
proof (induction n rule: str_nat.induct)
  case (1 n)
  show ?case
  proof (cases "n < 10")
    case True
    then show ?thesis
      by (simp add: str_nat.simps [of n] nat_of_digits_def digit_value_digit_char)
  next
    case False
    with 1 have "nat_of_digits (str_nat (n div 10)) = n div 10" by simp
    with False show ?thesis
      by (simp add: str_nat.simps [of n] nat_of_digits_snoc digit_value_digit_char)
  qed
qed

lemma digit_not_special:
  "is_digit c \<Longrightarrow> c \<noteq> CHR ''-'' \<and> c \<noteq> CHR ''+'' \<and> c \<noteq> CHR ''*'' \<and> c \<noteq> CHR '' '' \<and>
                 \<not> is_sep c \<and> \<not> is_sign c \<and> is_item c"
  by (auto simp: is_digit_def is_sep_def is_sign_def is_item_def)

lemma py_int_of_str_digits:
  assumes "ds \<noteq> []" "list_all is_digit ds"
  shows "py_int_of_str ds = Inr (int (nat_of_digits ds))"
    and "py_int_of_str (CHR ''-'' # ds) = Inr (- int (nat_of_digits ds))"
proof -
  from assms obtain c cs where ds: "ds = c # cs" and c: "is_digit c" by (cases ds) auto
  from c have "c \<noteq> CHR ''-''" "c \<noteq> CHR ''+''" using digit_not_special by blast+
  with assms ds show "py_int_of_str ds = Inr (int (nat_of_digits ds))"
    by (simp add: py_int_of_str_def)
  from assms show "py_int_of_str (CHR ''-'' # ds) = Inr (- int (nat_of_digits ds))"
    by (simp add: py_int_of_str_def)
qed

lemma py_int_of_str_str_int: "py_int_of_str (str_int i) = Inr i"
proof (cases "i < 0")
  case True
  then show ?thesis
    using py_int_of_str_digits(2) [of "str_nat (nat (- i))"] str_nat_digits [of "nat (- i)"]
    by (simp add: str_int_def nat_of_digits_str_nat)
next
  case False
  then show ?thesis
    using py_int_of_str_digits(1) [of "str_nat (nat i)"] str_nat_digits [of "nat i"]
    by (simp add: str_int_def nat_of_digits_str_nat)
qed

lemma match_at_unsigned:
  assumes "s = c # cs" "\<not> is_sign c" "takeWhile is_item s = item" "item \<noteq> []"
    "dropWhile is_item s = x # rest" "is_sep x"
  shows "match_at s = Some (item, dropWhile is_sep rest)"
proof -
  have "(case s of [] \<Rightarrow> ([], s) | c # cs \<Rightarrow> if is_sign c then ([c], cs) else ([], s)) = ([], s)"
    using assms(1,2) by simp
  moreover have "\<exists>y \<in> set s. \<not> is_item y"
    using assms(5) by (metis dropWhile_eq_Nil_conv list.distinct(1))
  ultimately show ?thesis
    unfolding match_at_def by (simp add: Let_def assms(3-6))
qed

lemma match_at_signed:
  assumes "is_sign c" "takeWhile is_item cs = item" "item \<noteq> []"
    "dropWhile is_item cs = x # rest" "is_sep x"
  shows "match_at (c # cs) = Some (c # item, dropWhile is_sep rest)"
proof -
  have "\<exists>y \<in> set cs. \<not> is_item y"
    using assms(4) by (metis dropWhile_eq_Nil_conv list.distinct(1))
  then show ?thesis by (simp add: match_at_def Let_def assms)
qed

lemma match_at_digits:
  assumes "ds \<noteq> []" "list_all is_digit ds" "is_sep x"
  shows "match_at (ds @ x # rest) = Some (ds, dropWhile is_sep rest)"
    and "match_at (CHR ''-'' # ds @ x # rest) = Some (CHR ''-'' # ds, dropWhile is_sep rest)"
proof -
  from assms(2) have items: "\<forall>c \<in> set ds. is_item c"
    using digit_not_special by (auto simp: list_all_iff)
  from assms(3) have nx: "\<not> is_item x"
    by (auto simp: is_sep_def is_item_def is_digit_def)
  have tw: "takeWhile is_item (ds @ x # rest) = ds"
    using items nx by (simp add: takeWhile_tail)
  have dw: "dropWhile is_item (ds @ x # rest) = x # rest"
    using items nx by (simp add: dropWhile_append3)
  from assms obtain c cs where ds: "ds = c # cs" and c: "is_digit c" by (cases ds) auto
  from c have ns: "\<not> is_sign c" using digit_not_special by blast
  have eq: "ds @ x # rest = c # (cs @ x # rest)" by (simp add: ds)
  show "match_at (ds @ x # rest) = Some (ds, dropWhile is_sep rest)"
    by (rule match_at_unsigned [OF eq ns tw assms(1) dw assms(3)])
  have sg: "is_sign CHR ''-''" by (simp add: is_sign_def)
  have "match_at (CHR ''-'' # (ds @ x # rest)) = Some (CHR ''-'' # ds, dropWhile is_sep rest)"
    by (rule match_at_signed [OF sg tw assms(1) dw assms(3)])
  then show "match_at (CHR ''-'' # ds @ x # rest) = Some (CHR ''-'' # ds, dropWhile is_sep rest)"
    by simp
qed

lemma match_at_str_int:
  assumes "is_sep x"
  shows "match_at (str_int i @ x # rest) = Some (str_int i, dropWhile is_sep rest)"
proof (cases "i < 0")
  case True
  then show ?thesis
    using match_at_digits(2) [OF _ _ assms, of "str_nat (nat (- i))" rest]
      str_nat_digits [of "nat (- i)"]
    by (simp add: str_int_def)
next
  case False
  then show ?thesis
    using match_at_digits(1) [OF _ _ assms, of "str_nat (nat i)" rest]
      str_nat_digits [of "nat i"]
    by (simp add: str_int_def)
qed

lemma str_int_hd: "\<exists>c cs. str_int i = c # cs \<and> \<not> is_sep c \<and> c \<noteq> CHR ''*''"
proof (cases "i < 0")
  case True
  then show ?thesis by (simp add: str_int_def is_sep_def)
next
  case False
  obtain c cs where n: "str_nat (nat i) = c # cs" and c: "is_digit c"
    using str_nat_digits [of "nat i"] by (cases "str_nat (nat i)") auto
  with False show ?thesis using digit_not_special [OF c] by (simp add: str_int_def)
qed

lemma findall_str_int:
  assumes "is_sep x"
  shows "findall (str_int i @ x # rest) = str_int i # findall (dropWhile is_sep rest)"
proof -
  obtain c cs where s: "str_int i = c # cs" using str_int_hd by blast
  have "findall (c # (cs @ x # rest)) =
        (case match_at (c # (cs @ x # rest)) of
           Some (g, r) \<Rightarrow> g # findall r | None \<Rightarrow> findall (cs @ x # rest))"
    by (rule findall.simps(2))
  moreover have "match_at (c # (cs @ x # rest)) = Some (c # cs, dropWhile is_sep rest)"
    using match_at_str_int [OF assms, of i rest] by (simp add: s)
  ultimately show ?thesis by (simp add: s)
qed

lemma dropWhile_sep_str_int: "dropWhile is_sep (str_int i @ rest) = str_int i @ rest"
proof -
  obtain c cs where s: "str_int i = c # cs" and c: "\<not> is_sep c" using str_int_hd by blast
  then show ?thesis by simp
qed

lemma findall_bracket: "findall (CHR ''['' # s) = findall s"
proof -
  have "match_at (CHR ''['' # s) = None"
    by (simp add: match_at_def Let_def is_sign_def is_item_def is_digit_def)
  then show ?thesis by (simp add: findall.simps(2))
qed

lemma findall_format_section:
  "findall (format_section a b c d) = [str_int a, str_int b, str_int c, str_int d]"
proof -
  have sep: "is_sep CHR '':''" "is_sep CHR '',''" "is_sep CHR '']''"
    by (simp_all add: is_sep_def)
  have "format_section a b c d =
        CHR ''['' # (str_int a @ CHR '':'' # (str_int b @ CHR '','' # (str_int c @ CHR '':'' #
                   (str_int d @ CHR '']'' # []))))"
    by (simp add: format_section_def)
  then have "findall (format_section a b c d) =
        findall (str_int a @ CHR '':'' # (str_int b @ CHR '','' # (str_int c @ CHR '':'' #
                   (str_int d @ CHR '']'' # []))))"
    by (simp only: findall_bracket)
  also have "\<dots> = str_int a # findall (str_int b @ CHR '','' # (str_int c @ CHR '':'' #
                   (str_int d @ CHR '']'' # [])))"
    by (simp only: findall_str_int [OF sep(1)] dropWhile_sep_str_int)
  also have "\<dots> = str_int a # str_int b # findall (str_int c @ CHR '':'' #
                   (str_int d @ CHR '']'' # []))"
    by (simp only: findall_str_int [OF sep(2)] dropWhile_sep_str_int)
  also have "\<dots> = str_int a # str_int b # str_int c # findall (str_int d @ CHR '']'' # [])"
    by (simp only: findall_str_int [OF sep(1)] dropWhile_sep_str_int)
  also have "\<dots> = [str_int a, str_int b, str_int c, str_int d]"
    by (simp add: findall_str_int [OF sep(3)] findall.simps(1))
  finally show ?thesis .
qed

lemma datasec_to_list_format_section:
  "datasec_to_list (format_section a b c d) = Inr [a, b, c, d]"
  by (simp add: datasec_to_list_def findall_format_section py_int_of_str_str_int)

lemma replace_nonempty_absent:
  "c \<in> set old \<Longrightarrow> c \<notin> set s \<Longrightarrow> replace_nonempty old new s = s"
proof (induction old new s rule: replace_nonempty.induct)
  case (1 old new s)
  show ?case
  proof (cases "s = [] \<or> old = []")
    case True
    then show ?thesis by (simp add: replace_nonempty.simps [of old new s])
  next
    case False
    have ne: "take (length old) s \<noteq> old"
    proof
      assume "take (length old) s = old"
      then have "set old \<subseteq> set s" by (metis set_take_subset)
      with "1.prems" show False by blast
    qed
    from "1.prems" False have "c \<notin> set (tl s)" by (cases s) auto
    with "1.IH"(2) [OF False ne "1.prems"(1)] have "replace_nonempty old new (tl s) = tl s" .
    with False ne show ?thesis by (simp add: replace_nonempty.simps [of old new s])
  qed
qed

lemma str_replace_absent:
  "c \<in> set old \<Longrightarrow> c \<notin> set s \<Longrightarrow> str_replace old new s = s"
  by (auto simp: str_replace_def replace_nonempty_absent)

lemma str_int_chars: "CHR ''*'' \<notin> set (str_int i) \<and> CHR '' '' \<notin> set (str_int i)"
proof -
  have "\<And>n. \<forall>c \<in> set (str_nat n). is_digit c"
    using str_nat_digits by (simp add: list_all_iff)
  then have "\<And>n. CHR ''*'' \<notin> set (str_nat n) \<and> CHR '' '' \<notin> set (str_nat n)"
    using digit_not_special by blast
  then show ?thesis by (simp add: str_int_def)
qed

lemma format_section_chars:
  "CHR ''*'' \<notin> set (format_section a b c d) \<and> CHR '' '' \<notin> set (format_section a b c d)"
  using str_int_chars by (simp add: format_section_def)

lemma expand_cutout_format_section:
  "expand_cutout (format_section a b c d) n1 n2 = format_section a b c d"
proof -
  let ?s = "format_section a b c d"
  have star: "\<And>old new. CHR ''*'' \<in> set old \<Longrightarrow> str_replace old new ?s = ?s"
    using format_section_chars by (blast intro: str_replace_absent)
  have space: "str_replace '' '' [] ?s = ?s"
    using format_section_chars [of a b c d] by (intro str_replace_absent [of "CHR '' ''"]) simp_all
  show ?thesis
    by (simp add: expand_cutout_def Let_def space star)
qed

lemma format_section_not_wild: "format_section a b c d \<noteq> ''[*,*]''"
proof
  assume "format_section a b c d = ''[*,*]''"
  then have "CHR ''*'' \<in> set (format_section a b c d)" by simp
  with format_section_chars show False by blast
qed

lemmas str_eval = str_int_def str_nat.simps digit_char_def

lemmas parse_eval = datasec_to_list_def findall.simps match_at_def Let_def is_sign_def
  is_item_def is_digit_def is_sep_def py_int_of_str_def nat_of_digits_def digit_value_def

lemmas replace_eval = expand_cutout_def str_replace_def replace_nonempty.simps

text \<open>
  C3. With no cutout (\<open>None\<close>) or the whole-image cutout \<open>[*,*]\<close>, \<open>reset_datasec\<close> returns
  the \<open>datasec\<close> argument unchanged, whatever \<open>datasec\<close>, \<open>naxis1\<close> and \<open>naxis2\<close> are.
\<close>

theorem reset_datasec_no_cutout:
  "reset_datasec None datasec naxis1 naxis2 = Inr (RStr datasec) \<and>
   reset_datasec (Some ''[*,*]'') datasec naxis1 naxis2 = Inr (RStr datasec)"
  by (simp add: reset_datasec_def)

theorem reset_datasec_no_cutout_witness:
  "reset_datasec None ''[33:2080,1:4612]'' 2112 4644 = Inr (RStr ''[33:2080,1:4612]'') \<and>
   reset_datasec (Some ''[*,*]'') ''[33:2080,1:4612]'' 2112 4644 = Inr (RStr ''[33:2080,1:4612]'')"
  using reset_datasec_no_cutout [of "''[33:2080,1:4612]''" 2112 4644] by simp

text \<open>
  C4, as the code has it. For a cutout \<open>[x1:x2,y1:y2]\<close> with \<open>1 \<le> x1 \<le> x2 \<le> naxis1\<close> and
  \<open>1 \<le> y1 \<le> y2 \<le> naxis2\<close> and a data section that parses to \<open>[a, b, c, d]\<close>,
  \<open>reset_datasec\<close> returns the window shifted by \<open>x1 - 1\<close> and \<open>y1 - 1\<close>, the lower bounds
  raised to 1 and the upper bounds lowered to \<open>naxis1\<close> and \<open>naxis2\<close>, the sizes passed
  in, not to the width \<open>x2 - x1 + 1\<close> and height \<open>y2 - y1 + 1\<close> of the cutout.
\<close>

theorem reset_datasec_translate:
  assumes "1 \<le> x1" "x1 \<le> x2" "x2 \<le> naxis1" "1 \<le> y1" "y1 \<le> y2" "y2 \<le> naxis2"
    and "datasec_to_list datasec = Inr [a, b, c, d]"
  shows "reset_datasec (Some (format_section x1 x2 y1 y2)) datasec naxis1 naxis2 =
         Inr (RStr (format_section (max (a - x1 + 1) 1) (min (b - x1 + 1) naxis1)
                      (max (c - y1 + 1) 1) (min (d - y1 + 1) naxis2)))"
proof -
  have co: "datasec_to_list (expand_cutout (format_section x1 x2 y1 y2) naxis1 naxis2) =
            Inr [x1, x2, y1, y2]"
    by (simp only: expand_cutout_format_section datasec_to_list_format_section)
  have fe: "from_end naxis1 x1 = x1" "from_end naxis1 x2 = x2"
           "from_end naxis2 y1 = y1" "from_end naxis2 y2 = y2"
    using assms(1,2,4,5) by (simp_all add: from_end_def)
  show ?thesis
    using assms(2,5)
    by (simp add: reset_datasec_def format_section_not_wild assms(7) co Let_def fe)
qed

theorem reset_datasec_translate_witness:
  "reset_datasec (Some ''[5:20,3:30]'') ''[10:50,1:40]'' 100 100 = Inr (RStr ''[6:46,1:38]'')"
proof -
  have ds: "datasec_to_list ''[10:50,1:40]'' = Inr [10, 50, 1, 40]"
    by (simp add: parse_eval)
  have c: "format_section 5 20 3 30 = ''[5:20,3:30]''"
    by (simp add: format_section_def str_eval)
  have r: "format_section 6 46 1 38 = ''[6:46,1:38]''"
    by (simp add: format_section_def str_eval)
  from reset_datasec_translate [of 5 20 100 3 30 100 "''[10:50,1:40]''" 10 50 1 40, OF _ _ _ _ _ _ ds]
  show ?thesis by (simp add: c r)
qed

text \<open>
  The claim C4 as stated fails: in a 100 by 100 image, the cutout \<open>[1:10,1:10]\<close> is 10
  pixels wide and high, and the data section \<open>[1:50,1:50]\<close> comes back as \<open>[1:50,1:50]\<close>,
  which reaches beyond the 10 pixels of the cutout.
\<close>

theorem reset_datasec_exceeds_cutout:
  "reset_datasec (Some ''[1:10,1:10]'') ''[1:50,1:50]'' 100 100 = Inr (RStr ''[1:50,1:50]'') \<and>
   ''[1:10,1:10]'' = format_section 1 10 1 10 \<and> ''[1:50,1:50]'' = format_section 1 50 1 50 \<and>
   \<not> (50 \<le> (10::int) - 1 + 1)"
proof -
  have ds: "datasec_to_list ''[1:50,1:50]'' = Inr [1, 50, 1, 50]"
    by (simp add: parse_eval)
  have ex: "expand_cutout ''[1:10,1:10]'' 100 100 = ''[1:10,1:10]''"
    by (simp add: replace_eval str_eval)
  have co: "datasec_to_list ''[1:10,1:10]'' = Inr [1, 10, 1, 10]"
    by (simp add: parse_eval)
  have f1: "format_section 1 10 1 10 = ''[1:10,1:10]''"
    by (simp add: format_section_def str_eval)
  have f2: "format_section 1 50 1 50 = ''[1:50,1:50]''"
    by (simp add: format_section_def str_eval)
  have "reset_datasec (Some ''[1:10,1:10]'') ''[1:50,1:50]'' 100 100 =
        Inr (RStr (format_section 1 50 1 50))"
    by (simp add: reset_datasec_def ds ex co from_end_def Let_def)
  with f1 f2 show ?thesis by simp
qed

text \<open>
  C5 at the input \<open>cutout = "[1:10,*]"\<close>, \<open>naxis1 = 100\<close>, \<open>naxis2 = 200\<close>: the wildcard on
  the y axis is replaced by \<open>1:100\<close>, the extent of the x axis, and the cutout is read as
  \<open>[1, 10, 1, 100]\<close>; the wildcard on the x axis is replaced by \<open>1:100\<close> too, there
  rightly. The last \<open>replace\<close> formats \<open>naxis1\<close> where the one for \<open>,-*]\<close> two lines above
  it formats \<open>naxis2\<close>.
\<close>

theorem expand_cutout_y_wildcard:
  "expand_cutout ''[1:10,*]'' 100 200 = ''[1:10,1:100]'' \<and>
   datasec_to_list (expand_cutout ''[1:10,*]'' 100 200) = Inr [1, 10, 1, 100] \<and>
   expand_cutout ''[1:10,-*]'' 100 200 = ''[1:10,200:1]'' \<and>
   expand_cutout ''[*,1:10]'' 100 200 = ''[1:100,1:10]''"
proof -
  have a: "expand_cutout ''[1:10,*]'' 100 200 = ''[1:10,1:100]''"
    by (simp add: replace_eval str_eval)
  have b: "datasec_to_list ''[1:10,1:100]'' = Inr [1, 10, 1, 100]"
    by (simp add: parse_eval)
  have c: "expand_cutout ''[1:10,-*]'' 100 200 = ''[1:10,200:1]''"
    by (simp add: replace_eval str_eval)
  have d: "expand_cutout ''[*,1:10]'' 100 200 = ''[1:100,1:10]''"
    by (simp add: replace_eval str_eval)
  from a b c d show ?thesis by simp
qed

text \<open>
  The value that \<open>reset_datasec\<close> returns shows the difference where the two extents lie on
  different sides of 1, since the upper bound of the cutout only decides \<open>flop\<close>.
\<close>

lemma reset_datasec_y_wildcard_result:
  "reset_datasec (Some ''[1:10,*]'') ''[1:5,1:5]'' 0 20 = Inr (RStr ''[1:0,1:1]'') \<and>
   reset_datasec (Some ''[1:10,1:20]'') ''[1:5,1:5]'' 0 20 = Inr (RStr ''[1:0,1:5]'')"
proof -
  have ds: "datasec_to_list ''[1:5,1:5]'' = Inr [1, 5, 1, 5]"
    by (simp add: parse_eval)
  have e1: "expand_cutout ''[1:10,*]'' 0 20 = ''[1:10,1:0]''"
    by (simp add: replace_eval str_eval)
  have c1: "datasec_to_list ''[1:10,1:0]'' = Inr [1, 10, 1, 0]"
    by (simp add: parse_eval)
  have e2: "expand_cutout ''[1:10,1:20]'' 0 20 = ''[1:10,1:20]''"
    by (simp add: replace_eval str_eval)
  have c2: "datasec_to_list ''[1:10,1:20]'' = Inr [1, 10, 1, 20]"
    by (simp add: parse_eval)
  have f1: "format_section 1 0 1 1 = ''[1:0,1:1]''"
    by (simp add: format_section_def str_eval)
  have f2: "format_section 1 0 1 5 = ''[1:0,1:5]''"
    by (simp add: format_section_def str_eval)
  have r1: "reset_datasec (Some ''[1:10,*]'') ''[1:5,1:5]'' 0 20 = Inr (RStr (format_section 1 0 1 1))"
    by (simp add: reset_datasec_def ds e1 c1 from_end_def Let_def)
  have r2: "reset_datasec (Some ''[1:10,1:20]'') ''[1:5,1:5]'' 0 20 = Inr (RStr (format_section 1 0 1 5))"
    by (simp add: reset_datasec_def ds e2 c2 from_end_def Let_def)
  from r1 r2 f1 f2 show ?thesis by simp
qed

text \<open>
  The claim C9 as stated fails: a cutout that only selects an extension, \<open>[1]\<close>, parses to
  a list of one integer, and reading \<open>cutout[1]\<close> raises \<open>IndexError\<close>.
\<close>

theorem reset_datasec_raises:
  "reset_datasec (Some ''[1]'') ''[33:2080,1:4612]'' 2112 4644 = Inl IndexError"
proof -
  have ds: "datasec_to_list ''[33:2080,1:4612]'' = Inr [33, 2080, 1, 4612]"
    by (simp add: parse_eval)
  have ex: "expand_cutout ''[1]'' 2112 4644 = ''[1]''"
    by (simp add: replace_eval str_eval)
  have co: "datasec_to_list ''[1]'' = Inr [1]"
    by (simp add: parse_eval)
  show ?thesis by (simp add: reset_datasec_def ds ex co)
qed

text \<open>
  C9, as the code has it. A parse error never leaves \<open>reset_datasec\<close>: when \<open>datasec\<close>
  cannot be parsed, the \<open>datasec\<close> string is returned unchanged; when the substituted
  cutout cannot be parsed, the function returns too. The only exception it raises is
  \<open>IndexError\<close>, and it raises it exactly when the cutout is given and is not \<open>[*,*]\<close>,
  both strings parse, and the cutout list (without its first entry when it has five) or
  the datasec list has fewer than four entries.
\<close>

theorem reset_datasec_parse_errors:
  "(datasec_to_list datasec = Inl e \<longrightarrow>
      reset_datasec cutout datasec naxis1 naxis2 = Inr (RStr datasec)) \<and>
   (cutout = Some c \<and> datasec_to_list (expand_cutout c naxis1 naxis2) = Inl e \<longrightarrow>
      (\<exists>v. reset_datasec cutout datasec naxis1 naxis2 = Inr v)) \<and>
   ((reset_datasec cutout datasec naxis1 naxis2 = Inl e') =
      (e' = IndexError \<and>
       (\<exists>c ds co. cutout = Some c \<and> c \<noteq> ''[*,*]'' \<and> datasec_to_list datasec = Inr ds \<and>
          datasec_to_list (expand_cutout c naxis1 naxis2) = Inr co \<and>
          (length (if length co = 5 then tl co else co) < 4 \<or> length ds < 4))))"
proof -
  have a: "datasec_to_list datasec = Inl e \<longrightarrow>
      reset_datasec cutout datasec naxis1 naxis2 = Inr (RStr datasec)"
    by (simp add: reset_datasec_def split: option.splits)
  have b: "cutout = Some c \<and> datasec_to_list (expand_cutout c naxis1 naxis2) = Inl e \<longrightarrow>
      (\<exists>v. reset_datasec cutout datasec naxis1 naxis2 = Inr v)"
    by (simp add: reset_datasec_def split: sum.splits)
  have c1: "reset_datasec cutout datasec naxis1 naxis2 = Inl e' \<Longrightarrow>
      e' = IndexError \<and>
      (\<exists>c ds co. cutout = Some c \<and> c \<noteq> ''[*,*]'' \<and> datasec_to_list datasec = Inr ds \<and>
         datasec_to_list (expand_cutout c naxis1 naxis2) = Inr co \<and>
         (length (if length co = 5 then tl co else co) < 4 \<or> length ds < 4))"
    by (auto simp: reset_datasec_def Let_def split: option.splits sum.splits if_splits prod.splits)
  have c2: "e' = IndexError \<and>
      (\<exists>c ds co. cutout = Some c \<and> c \<noteq> ''[*,*]'' \<and> datasec_to_list datasec = Inr ds \<and>
         datasec_to_list (expand_cutout c naxis1 naxis2) = Inr co \<and>
         (length (if length co = 5 then tl co else co) < 4 \<or> length ds < 4)) \<Longrightarrow>
      reset_datasec cutout datasec naxis1 naxis2 = Inl e'"
  proof -
    assume h: "e' = IndexError \<and>
      (\<exists>c ds co. cutout = Some c \<and> c \<noteq> ''[*,*]'' \<and> datasec_to_list datasec = Inr ds \<and>
         datasec_to_list (expand_cutout c naxis1 naxis2) = Inr co \<and>
         (length (if length co = 5 then tl co else co) < 4 \<or> length ds < 4))"
    then obtain c ds co where
      k: "cutout = Some c" "c \<noteq> ''[*,*]''" "datasec_to_list datasec = Inr ds"
         "datasec_to_list (expand_cutout c naxis1 naxis2) = Inr co"
         "length (if length co = 5 then tl co else co) < 4 \<or> length ds < 4"
      by blast
    from k(5) have "reset_datasec (Some c) datasec naxis1 naxis2 = Inl IndexError"
      by (auto simp: reset_datasec_def k(2,3,4) Let_def)
    with h k(1) show ?thesis by simp
  qed
  from c1 c2 have c: "(reset_datasec cutout datasec naxis1 naxis2 = Inl e') =
      (e' = IndexError \<and>
       (\<exists>c ds co. cutout = Some c \<and> c \<noteq> ''[*,*]'' \<and> datasec_to_list datasec = Inr ds \<and>
          datasec_to_list (expand_cutout c naxis1 naxis2) = Inr co \<and>
          (length (if length co = 5 then tl co else co) < 4 \<or> length ds < 4)))"
    by blast
  from a b c show ?thesis by blast
qed

theorem reset_datasec_parse_errors_witness:
  "reset_datasec (Some ''[1:10,1:10]'') ''[1:*,1:5]'' 100 100 = Inr (RStr ''[1:*,1:5]'') \<and>
   (\<exists>v. reset_datasec (Some ''[1:x,*:3]'') ''[1:50,1:50]'' 100 100 = Inr v) \<and>
   reset_datasec (Some ''[1:10,1:10]'') ''[1:5]'' 100 100 = Inl IndexError"
proof -
  have d: "datasec_to_list ''[1:*,1:5]'' = Inl ValueError"
    by (simp add: parse_eval)
  have x: "expand_cutout ''[1:x,*:3]'' 100 100 = ''[1:x,*:3]''"
    by (simp add: replace_eval str_eval)
  have c: "datasec_to_list (expand_cutout ''[1:x,*:3]'' 100 100) = Inl ValueError"
    unfolding x by (simp add: parse_eval)
  have s: "datasec_to_list ''[1:5]'' = Inr [1, 5]"
    by (simp add: parse_eval)
  have y: "expand_cutout ''[1:10,1:10]'' 100 100 = ''[1:10,1:10]''"
    by (simp add: replace_eval str_eval)
  have co: "datasec_to_list (expand_cutout ''[1:10,1:10]'' 100 100) = Inr [1, 10, 1, 10]"
    unfolding y by (simp add: parse_eval)
  have ne: "''[1:10,1:10]'' \<noteq> ''[*,*]''" by simp
  have r: "reset_datasec (Some ''[1:10,1:10]'') ''[1:5]'' 100 100 = Inl IndexError"
    using reset_datasec_parse_errors
            [of "''[1:5]''" ValueError "Some ''[1:10,1:10]''" 100 100 "''[1:10,1:10]''" IndexError]
          s co ne
    by simp
  from reset_datasec_parse_errors
         [of "''[1:*,1:5]''" ValueError "Some ''[1:10,1:10]''" 100 100 "''[1:10,1:10]''" IndexError]
       reset_datasec_parse_errors
         [of "''[1:50,1:50]''" ValueError "Some ''[1:x,*:3]''" 100 100 "''[1:x,*:3]''" IndexError]
       d c r
  show ?thesis by simp
qed

section \<open>Properties of get_uri\<close>

lemma str_int_no_slash: "CHR ''/'' \<notin> set (str_int i)"
proof -
  have "\<And>n. \<forall>c \<in> set (str_nat n). is_digit c"
    using str_nat_digits by (simp add: list_all_iff)
  then have "\<And>n. CHR ''/'' \<notin> set (str_nat n)"
    by (auto simp: is_digit_def)
  then show ?thesis by (simp add: str_int_def)
qed

lemma str_int_nonempty: "str_int i \<noteq> []"
  using str_int_hd [of i] by auto

lemma zfill_no_slash: "CHR ''/'' \<notin> set s \<Longrightarrow> CHR ''/'' \<notin> set (zfill w s)"
  by (auto simp: zfill_def split: list.splits)

lemma zfill_digit:
  assumes "0 \<le> n" "n < 10"
  shows "zfill 2 (str_int n) = [CHR ''0'', digit_char (nat n)]"
proof -
  from assms have "nat n < 10" by simp
  with assms have "str_int n = [digit_char (nat n)]"
    by (simp add: str_int_def str_nat.simps [of "nat n"])
  moreover from \<open>nat n < 10\<close> have "is_digit (digit_char (nat n))"
    by (rule is_digit_digit_char)
  then have "digit_char (nat n) \<noteq> CHR ''+'' \<and> digit_char (nat n) \<noteq> CHR ''-''"
    using digit_not_special by blast
  ultimately show ?thesis by (simp add: zfill_def)
qed

lemma zfill_wide:
  assumes "10 \<le> n"
  shows "zfill 2 (str_int n) = str_int n"
proof -
  from assms have "\<not> nat n < 10" by simp
  then have "str_nat (nat n) = str_nat (nat n div 10) @ [digit_char (nat n mod 10)]"
    by (simp add: str_nat.simps [of "nat n"])
  moreover have "str_nat (nat n div 10) \<noteq> []" using str_nat_digits by blast
  ultimately have "2 \<le> length (str_nat (nat n))"
    by (cases "str_nat (nat n div 10)") simp_all
  with assms show ?thesis by (simp add: zfill_def str_int_def)
qed

lemma join2_plain:
  assumes "path \<noteq> []" "last path \<noteq> CHR ''/''" "b = [] \<or> hd b \<noteq> CHR ''/''"
  shows "join2 path b = path @ ''/'' @ b"
  using assms by (auto simp: join2_def)

text \<open>
  C7, as the code has it. When the \<open>subdir\<close> given is not empty and neither starts nor ends
  with a slash, and the \<open>prefix\<close> given does not start with a slash, \<open>get_uri\<close> returns
  \<open>DBIMAGES/subdir/ccdNN/{prefix}{expnum}{version}NN{ext'}\<close> with a \<open>ccd\<close> and
  \<open>DBIMAGES/subdir/{prefix}{expnum}{version}{ext'}\<close> without one; \<open>subdir\<close> defaults to
  \<open>str(expnum)\<close>, \<open>prefix\<close> to the empty string, \<open>ext'\<close> is \<open>ext\<close> with a dot in front when
  it is not empty and has none (empty for \<open>None\<close>), and \<open>NN\<close> is \<open>str(ccd).zfill(2)\<close>: a
  zero and the digit for a ccd from 0 to 9, \<open>str(ccd)\<close> from 10 on. The defaults always
  meet the two conditions.
\<close>

theorem get_uri_layout:
  assumes "\<forall>s. subdir = Some s \<longrightarrow> s \<noteq> [] \<and> hd s \<noteq> CHR ''/'' \<and> last s \<noteq> CHR ''/''"
    and "\<forall>p. prefix = Some p \<longrightarrow> p = [] \<or> hd p \<noteq> CHR ''/''"
  shows "get_uri expnum ccd version ext subdir prefix =
           DBIMAGES @ ''/'' @ (case subdir of None \<Rightarrow> str_int expnum | Some s \<Rightarrow> s) @ ''/'' @
           (case ccd of
              Some n \<Rightarrow> ''ccd'' @ zfill 2 (str_int n) @ ''/'' @
                        (case prefix of None \<Rightarrow> [] | Some p \<Rightarrow> p) @ str_int expnum @ version @
                        zfill 2 (str_int n) @
                        (case ext of None \<Rightarrow> []
                         | Some e \<Rightarrow> if e \<noteq> [] \<and> hd e \<noteq> CHR ''.'' then CHR ''.'' # e else e)
            | None \<Rightarrow> (case prefix of None \<Rightarrow> [] | Some p \<Rightarrow> p) @ str_int expnum @ version @
                      (case ext of None \<Rightarrow> []
                       | Some e \<Rightarrow> if e \<noteq> [] \<and> hd e \<noteq> CHR ''.'' then CHR ''.'' # e else e)) \<and>
         (\<forall>n. ccd = Some n \<and> 0 \<le> n \<and> n < 10 \<longrightarrow>
                zfill 2 (str_int n) = [CHR ''0'', digit_char (nat n)]) \<and>
         (\<forall>n. ccd = Some n \<and> 10 \<le> n \<longrightarrow> zfill 2 (str_int n) = str_int n)"
proof -
  let ?sd = "case subdir of None \<Rightarrow> str_int expnum | Some s \<Rightarrow> s"
  let ?pre = "case prefix of None \<Rightarrow> [] | Some p \<Rightarrow> p"
  let ?ext = "case ext of None \<Rightarrow> []
              | Some e \<Rightarrow> if length e > 0 \<and> e ! 0 \<noteq> CHR ''.'' then ''.'' @ e else e"
  let ?ext' = "case ext of None \<Rightarrow> []
               | Some e \<Rightarrow> if e \<noteq> [] \<and> hd e \<noteq> CHR ''.'' then CHR ''.'' # e else e"
  have ext: "?ext = ?ext'"
  proof (cases ext)
    case None
    then show ?thesis by simp
  next
    case (Some e)
    then show ?thesis by (cases e) simp_all
  qed
  have e_ne: "str_int expnum \<noteq> []" by (rule str_int_nonempty)
  have e_hd: "hd (str_int expnum) \<noteq> CHR ''/''"
    using str_int_no_slash [of expnum] e_ne by (metis hd_in_set)
  have e_last: "last (str_int expnum) \<noteq> CHR ''/''"
    using str_int_no_slash [of expnum] e_ne by (metis last_in_set)
  have sd: "?sd \<noteq> [] \<and> hd ?sd \<noteq> CHR ''/'' \<and> last ?sd \<noteq> CHR ''/''"
    using assms(1) e_ne e_hd e_last by (cases subdir) simp_all
  have uri: "join2 DBIMAGES ?sd = DBIMAGES @ ''/'' @ ?sd"
    using sd by (simp add: join2_def DBIMAGES_def)
  let ?uri = "DBIMAGES @ ''/'' @ ?sd"
  have uri_last: "?uri \<noteq> [] \<and> last ?uri \<noteq> CHR ''/''"
    using sd by simp
  have fname_hd: "\<And>rest. hd (?pre @ str_int expnum @ rest) \<noteq> CHR ''/''"
  proof -
    fix rest
    show "hd (?pre @ str_int expnum @ rest) \<noteq> CHR ''/''"
    proof (cases "?pre = []")
      case True
      then show ?thesis using e_ne e_hd by simp
    next
      case False
      then obtain p where "prefix = Some p" "p \<noteq> []" by (cases prefix) auto
      with assms(2) show ?thesis by simp
    qed
  qed
  have fname_ne: "\<And>rest. ?pre @ str_int expnum @ rest \<noteq> []" using e_ne by simp
  have main: "get_uri expnum ccd version ext subdir prefix =
           ?uri @ ''/'' @
           (case ccd of
              Some n \<Rightarrow> ''ccd'' @ zfill 2 (str_int n) @ ''/'' @
                        ?pre @ str_int expnum @ version @ zfill 2 (str_int n) @ ?ext'
            | None \<Rightarrow> ?pre @ str_int expnum @ version @ ?ext')"
  proof (cases ccd)
    case None
    have "get_uri expnum ccd version ext subdir prefix =
          join2 ?uri (?pre @ str_int expnum @ version @ ?ext')"
      by (simp add: get_uri_def Let_def None uri ext os_path_join_def del: append_assoc)
    also have "\<dots> = ?uri @ ''/'' @ (?pre @ str_int expnum @ version @ ?ext')"
      using uri_last fname_hd [of "version @ ?ext'"]
      by (intro join2_plain) simp_all
    finally show ?thesis by (simp add: None)
  next
    case (Some n)
    let ?nn = "zfill 2 (str_int n)"
    have nn: "CHR ''/'' \<notin> set ?nn" by (rule zfill_no_slash [OF str_int_no_slash])
    have "get_uri expnum ccd version ext subdir prefix =
          join2 (join2 ?uri (''ccd'' @ ?nn)) (?pre @ str_int expnum @ version @ ?nn @ ?ext')"
      by (simp add: get_uri_def Let_def Some uri ext os_path_join_def del: append_assoc)
    moreover have j1: "join2 ?uri (''ccd'' @ ?nn) = ?uri @ ''/'' @ (''ccd'' @ ?nn)"
      using uri_last by (intro join2_plain) simp_all
    moreover have "last (?uri @ ''/'' @ (''ccd'' @ ?nn)) \<noteq> CHR ''/''"
    proof (cases "?nn = []")
      case True
      then show ?thesis by simp
    next
      case False
      then have "last (?uri @ ''/'' @ (''ccd'' @ ?nn)) = last ?nn" by simp
      with nn False show ?thesis by (metis last_in_set)
    qed
    then have "join2 (?uri @ ''/'' @ (''ccd'' @ ?nn)) (?pre @ str_int expnum @ version @ ?nn @ ?ext') =
               (?uri @ ''/'' @ (''ccd'' @ ?nn)) @ ''/'' @
               (?pre @ str_int expnum @ version @ ?nn @ ?ext')"
      using fname_hd [of "version @ ?nn @ ?ext'"]
      by (intro join2_plain) simp_all
    ultimately show ?thesis by (simp add: Some)
  qed
  have z1: "\<forall>n. ccd = Some n \<and> 0 \<le> n \<and> n < 10 \<longrightarrow>
                zfill 2 (str_int n) = [CHR ''0'', digit_char (nat n)]"
    using zfill_digit by blast
  have z2: "\<forall>n. ccd = Some n \<and> 10 \<le> n \<longrightarrow> zfill 2 (str_int n) = str_int n"
    using zfill_wide by blast
  from main z1 z2 show ?thesis by simp
qed

theorem get_uri_layout_witness:
  "get_uri 1616681 (Some 2) ''p'' (Some ''fits'') None (Some ''fk'') =
     ''vos:OSSOS/dbimages/1616681/ccd02/fk1616681p02.fits'' \<and>
   get_uri 1616681 None ''o'' (Some ''.head'') (Some ''calibrators'') None =
     ''vos:OSSOS/dbimages/calibrators/1616681o.head''"
proof -
  have e: "str_int 1616681 = ''1616681''" by (simp add: str_eval)
  have n: "zfill 2 (str_int 2) = ''02''" by (simp add: str_eval zfill_def)
  from get_uri_layout [of None "Some ''fk''" 1616681 "Some 2" "''p''" "Some ''fits''"]
       get_uri_layout [of "Some ''calibrators''" None 1616681 None "''o''" "Some ''.head''"]
  show ?thesis by (simp add: e n DBIMAGES_def)
qed

text \<open>
  The claim C7 as stated fails for a \<open>subdir\<close> that starts with a slash: \<open>os.path.join\<close>
  then drops \<open>DBIMAGES\<close>.
\<close>

theorem get_uri_absolute_subdir:
  "get_uri 1616681 (Some 22) ''p'' (Some ''fits'') (Some ''/tmp'') None =
     ''/tmp/ccd22/1616681p22.fits'' \<and>
   get_uri 1616681 (Some 22) ''p'' (Some ''fits'') (Some ''/tmp'') None \<noteq>
     DBIMAGES @ ''/'' @ ''/tmp'' @ ''/ccd'' @ ''22'' @ ''/'' @ [] @ ''1616681'' @ ''p'' @ ''22'' @ ''.fits''"
proof -
  have e: "str_int 1616681 = ''1616681''" by (simp add: str_eval)
  have n: "zfill 2 (str_int 22) = ''22''" by (simp add: str_eval zfill_def)
  have "get_uri 1616681 (Some 22) ''p'' (Some ''fits'') (Some ''/tmp'') None =
        ''/tmp/ccd22/1616681p22.fits''"
    by (simp add: get_uri_def Let_def os_path_join_def join2_def e n)
  then show ?thesis by (simp add: DBIMAGES_def)
qed

section \<open>Properties of phot\<close>

lemma zeropoints_DEFAULT: "map_of zeropoints ''DEFAULT'' = Some 26"
  by (simp add: zeropoints_def)

lemma zeropoints_filter1:
  "map_of zeropoints (if map_of zeropoints f = None then ''DEFAULT'' else f) =
   Some (case map_of zeropoints f of None \<Rightarrow> 26 | Some d \<Rightarrow> d)"
  by (cases "map_of zeropoints f") (simp_all add: zeropoints_DEFAULT)

lemma phot_zmag_cases:
  "(zeropoint_used env = Some s \<longrightarrow>
      phot_zmag float_of_str env =
        (case float_of_str s of None \<Rightarrow> Inl ValueError | Some z \<Rightarrow> Inr z)) \<and>
   (zeropoint_used env = None \<and> header_PHOTZP env = Some z \<longrightarrow>
      phot_zmag float_of_str env = Inr z) \<and>
   (zeropoint_used env = None \<and> header_PHOTZP env = None \<longrightarrow>
      phot_zmag float_of_str env =
        Inr (case header_FILTER env of
               None \<Rightarrow> 26
             | Some f \<Rightarrow> (case map_of zeropoints f of None \<Rightarrow> 26 | Some d \<Rightarrow> d))) \<and>
   map_of zeropoints ''DEFAULT'' = Some 26"
proof -
  let ?f0 = "case header_FILTER env of None \<Rightarrow> ''DEFAULT'' | Some f \<Rightarrow> f"
  have tbl: "map_of zeropoints (if map_of zeropoints ?f0 = None then ''DEFAULT'' else ?f0) =
             Some (case map_of zeropoints ?f0 of None \<Rightarrow> 26 | Some d \<Rightarrow> d)"
    by (rule zeropoints_filter1)
  have dflt: "(case map_of zeropoints ?f0 of None \<Rightarrow> 26 | Some d \<Rightarrow> d) =
              (case header_FILTER env of
                 None \<Rightarrow> 26
               | Some f \<Rightarrow> (case map_of zeropoints f of None \<Rightarrow> 26 | Some d \<Rightarrow> d))"
    by (cases "header_FILTER env") (simp_all add: zeropoints_DEFAULT)
  have a: "zeropoint_used env = Some s \<longrightarrow>
      phot_zmag float_of_str env =
        (case float_of_str s of None \<Rightarrow> Inl ValueError | Some z \<Rightarrow> Inr z)"
    by (simp add: phot_zmag_def Let_def tbl)
  have b: "zeropoint_used env = None \<and> header_PHOTZP env = Some z \<longrightarrow>
      phot_zmag float_of_str env = Inr z"
    by (simp add: phot_zmag_def Let_def tbl)
  have c: "zeropoint_used env = None \<and> header_PHOTZP env = None \<longrightarrow>
      phot_zmag float_of_str env =
        Inr (case header_FILTER env of
               None \<Rightarrow> 26
             | Some f \<Rightarrow> (case map_of zeropoints f of None \<Rightarrow> 26 | Some d \<Rightarrow> d))"
    by (simp add: phot_zmag_def Let_def tbl dflt)
  from a b c zeropoints_DEFAULT show ?thesis by blast
qed

lemma format_MAG: "map_of format ''MAG'' = Some ''%10.2f''"
  by (simp add: format_def)

lemma match_f_MAG: "re_match_pct CHR ''f'' ''%10.2f''"
  by (simp add: re_match_pct_def)

lemma append_col_other:
  "append_col tab col x = Inr tab' \<Longrightarrow> col \<noteq> k \<Longrightarrow> tab' k = tab k"
  by (auto simp: append_col_def split: option.splits)

lemma append_col_same:
  "append_col tab col x = Inr tab' \<Longrightarrow> \<exists>xs. tab col = Some xs \<and> tab' col = Some (xs @ [x])"
  by (auto simp: append_col_def split: option.splits)

lemma phot_col_other:
  assumes "phot_col fl il apcor (vals, tab) col = Inr (vals', tab')" "col \<noteq> ''MAG''"
  shows "vals \<noteq> [] \<and> vals' = tl vals \<and> tab' ''MAG'' = tab ''MAG''"
  using assms
  by (auto simp: phot_col_def split: option.splits if_splits list.splits sum.splits
           dest: append_col_other)

lemma phot_col_MAG:
  assumes "phot_col fl il apcor (vals, tab) ''MAG'' = Inr (vals', tab')"
  shows "\<exists>v m xs. vals = v # vals' \<and> py_float fl v = Inr m \<and> tab ''MAG'' = Some xs \<and>
                  tab' ''MAG'' = Some (xs @ [CFlt (m - apcor)])"
  using assms
  by (auto simp: phot_col_def format_MAG match_f_MAG split: list.splits sum.splits
           dest: append_col_same)

lemma phot_cols_other:
  "phot_cols fl il apcor st cols = Inr st' \<Longrightarrow> ''MAG'' \<notin> set cols \<Longrightarrow>
   snd st' ''MAG'' = snd st ''MAG''"
proof (induction cols arbitrary: st)
  case Nil
  then show ?case by simp
next
  case (Cons col cols)
  from Cons.prems obtain st1 where
    s1: "phot_col fl il apcor st col = Inr st1" and r: "phot_cols fl il apcor st1 cols = Inr st'"
    by (auto split: sum.splits)
  from Cons.prems have ne: "col \<noteq> ''MAG''" and nin: "''MAG'' \<notin> set cols" by auto
  have "snd st1 ''MAG'' = snd st ''MAG''"
    using phot_col_other [of fl il apcor "fst st" "snd st" col "fst st1" "snd st1"] s1 ne
    by simp
  with Cons.IH [OF r nin] show ?case by simp
qed

lemma phot_cols_order:
  assumes "phot_cols fl il apcor (map CStr toks, tab) order = Inr (vals', tab')"
  shows "\<exists>m xs. 2 < length toks \<and> fl (toks ! 2) = Some m \<and> tab ''MAG'' = Some xs \<and>
                tab' ''MAG'' = Some (xs @ [CFlt (m - apcor)])"
proof -
  let ?rest = "[''MERR'', ''ID'', ''XSHIFT'', ''YSHIFT'', ''LID'']"
  from assms obtain v1 d1 v2 d2 v3 d3 where
    c1: "phot_col fl il apcor (map CStr toks, tab) ''X'' = Inr (v1, d1)" and
    c2: "phot_col fl il apcor (v1, d1) ''Y'' = Inr (v2, d2)" and
    c3: "phot_col fl il apcor (v2, d2) ''MAG'' = Inr (v3, d3)" and
    c4: "phot_cols fl il apcor (v3, d3) ?rest = Inr (vals', tab')"
    by (auto simp: order_def split: sum.splits)
  from phot_col_other [OF c1] have p1: "toks \<noteq> []" "v1 = tl (map CStr toks)" "d1 ''MAG'' = tab ''MAG''"
    by simp_all
  from phot_col_other [OF c2] have p2: "v1 \<noteq> []" "v2 = tl v1" "d2 ''MAG'' = d1 ''MAG''"
    by simp_all
  from phot_col_MAG [OF c3] obtain v m xs where
    p3: "v2 = v # v3" "py_float fl v = Inr m" "d2 ''MAG'' = Some xs"
        "d3 ''MAG'' = Some (xs @ [CFlt (m - apcor)])"
    by blast
  from phot_cols_other [OF c4] have p4: "tab' ''MAG'' = d3 ''MAG''" by simp
  from p1(1) obtain t0 r0 where t0: "toks = t0 # r0" by (cases toks) auto
  with p1(2) have v1: "v1 = map CStr r0" by simp
  with p2(1) obtain t1 r1 where t1: "r0 = t1 # r1" by (cases r0) auto
  with v1 p2(2) have "v2 = map CStr r1" by simp
  with p3(1) obtain t2 r2 where t2: "r1 = t2 # r2" "v = CStr t2" by (cases r1) auto
  from t0 t1 t2 have len: "2 < length toks" and nth: "toks ! 2 = t2" by simp_all
  from p3(2) t2(2) nth have "fl (toks ! 2) = Some m" by (auto split: option.splits)
  with len p1 p2 p3 p4 show ?thesis by simp
qed

lemma phot_lines_MAG:
  "phot_lines fl il apcor tab lines = Inr d \<Longrightarrow> tab ''MAG'' = Some xs \<Longrightarrow>
   \<exists>ms. d ''MAG'' = Some (xs @ map (\<lambda>m. CFlt (m - apcor)) ms) \<and>
        list_all2 (\<lambda>line m. 2 < length (split line) \<and> fl (split line ! 2) = Some m) lines ms"
proof (induction lines arbitrary: tab xs)
  case Nil
  then show ?case by simp
next
  case (Cons line lines)
  from Cons.prems(1) obtain vals tab1 where
    l1: "phot_cols fl il apcor (map CStr (split line), tab) order = Inr (vals, tab1)" and
    r: "phot_lines fl il apcor tab1 lines = Inr d"
    by (auto split: sum.splits)
  from phot_cols_order [OF l1] Cons.prems(2) obtain m where
    m: "2 < length (split line)" "fl (split line ! 2) = Some m"
       "tab1 ''MAG'' = Some (xs @ [CFlt (m - apcor)])"
    by auto
  from Cons.IH [OF r m(3)] obtain ms where
    ms: "d ''MAG'' = Some ((xs @ [CFlt (m - apcor)]) @ map (\<lambda>m. CFlt (m - apcor)) ms)"
        "list_all2 (\<lambda>line m. 2 < length (split line) \<and> fl (split line ! 2) = Some m) lines ms"
    by blast
  have "d ''MAG'' = Some (xs @ map (\<lambda>m. CFlt (m - apcor)) (m # ms))"
    using ms(1) by simp
  moreover have "list_all2 (\<lambda>line m. 2 < length (split line) \<and> fl (split line ! 2) = Some m)
                   (line # lines) (m # ms)"
    using m ms(2) by simp
  ultimately show ?case by blast
qed

lemma initial_MAG: "map_of (map (\<lambda>col. (col, [])) order) ''MAG'' = Some []"
  by (simp add: order_def)

text \<open>
  C6. \<open>phot\<close> takes its zeropoint from three sources, in this order. When the file
  \<open>zeropoint.used\<close> is readable, its contents read as a float are the zeropoint, and
  \<open>phot\<close> raises \<open>ValueError\<close> when they are not a float; otherwise the \<open>PHOTZP\<close> card of
  the header is the zeropoint when there is one; otherwise the table entry of the header's
  \<open>FILTER\<close> is, and the \<open>DEFAULT\<close> entry, 26.0, when the filter is absent or not in the
  table. In each case \<open>phot\<close> goes on to parse the lines of \<open>pdump\<close> and returns the
  structure whose \<open>zeropoint\<close> is that value.
\<close>

theorem phot_zmag_precedence:
  "(zeropoint_used env = Some s \<and> float_of_str s = None \<longrightarrow>
      phot float_of_str int_of_str env apcor = Inl ValueError) \<and>
   (zeropoint_used env = Some s \<and> float_of_str s = Some z \<or>
    zeropoint_used env = None \<and> header_PHOTZP env = Some z \<or>
    zeropoint_used env = None \<and> header_PHOTZP env = None \<and>
      z = (case header_FILTER env of
             None \<Rightarrow> 26
           | Some f \<Rightarrow> (case map_of zeropoints f of None \<Rightarrow> 26 | Some d \<Rightarrow> d)) \<longrightarrow>
      phot float_of_str int_of_str env apcor =
        (case phot_lines float_of_str int_of_str apcor
                (map_of (map (\<lambda>col. (col, [])) order)) (pdump_out env) of
           Inl e \<Rightarrow> Inl e
         | Inr d \<Rightarrow> Inr \<lparr>aper_cor = apcor, zeropoint = z, data = d\<rparr>) \<and>
      (\<forall>h. phot float_of_str int_of_str env apcor = Inr h \<longrightarrow> zeropoint h = z)) \<and>
   map_of zeropoints ''DEFAULT'' = Some 26"
proof -
  note cases = phot_zmag_cases [of env s float_of_str z]
  have a: "zeropoint_used env = Some s \<and> float_of_str s = None \<longrightarrow>
      phot float_of_str int_of_str env apcor = Inl ValueError"
    using cases by (simp add: phot_def)
  have b: "zeropoint_used env = Some s \<and> float_of_str s = Some z \<or>
    zeropoint_used env = None \<and> header_PHOTZP env = Some z \<or>
    zeropoint_used env = None \<and> header_PHOTZP env = None \<and>
      z = (case header_FILTER env of
             None \<Rightarrow> 26
           | Some f \<Rightarrow> (case map_of zeropoints f of None \<Rightarrow> 26 | Some d \<Rightarrow> d)) \<longrightarrow>
      phot float_of_str int_of_str env apcor =
        (case phot_lines float_of_str int_of_str apcor
                (map_of (map (\<lambda>col. (col, [])) order)) (pdump_out env) of
           Inl e \<Rightarrow> Inl e
         | Inr d \<Rightarrow> Inr \<lparr>aper_cor = apcor, zeropoint = z, data = d\<rparr>) \<and>
      (\<forall>h. phot float_of_str int_of_str env apcor = Inr h \<longrightarrow> zeropoint h = z)"
  proof
    assume h: "zeropoint_used env = Some s \<and> float_of_str s = Some z \<or>
      zeropoint_used env = None \<and> header_PHOTZP env = Some z \<or>
      zeropoint_used env = None \<and> header_PHOTZP env = None \<and>
        z = (case header_FILTER env of
               None \<Rightarrow> 26
             | Some f \<Rightarrow> (case map_of zeropoints f of None \<Rightarrow> 26 | Some d \<Rightarrow> d))"
    with cases have zm: "phot_zmag float_of_str env = Inr z" by auto
    have eq: "phot float_of_str int_of_str env apcor =
        (case phot_lines float_of_str int_of_str apcor
                (map_of (map (\<lambda>col. (col, [])) order)) (pdump_out env) of
           Inl e \<Rightarrow> Inl e
         | Inr d \<Rightarrow> Inr \<lparr>aper_cor = apcor, zeropoint = z, data = d\<rparr>)"
      by (simp add: phot_def zm)
    have "\<forall>h. phot float_of_str int_of_str env apcor = Inr h \<longrightarrow> zeropoint h = z"
      unfolding eq by (auto split: sum.splits)
    with eq show "phot float_of_str int_of_str env apcor =
        (case phot_lines float_of_str int_of_str apcor
                (map_of (map (\<lambda>col. (col, [])) order)) (pdump_out env) of
           Inl e \<Rightarrow> Inl e
         | Inr d \<Rightarrow> Inr \<lparr>aper_cor = apcor, zeropoint = z, data = d\<rparr>) \<and>
      (\<forall>h. phot float_of_str int_of_str env apcor = Inr h \<longrightarrow> zeropoint h = z)"
      by blast
  qed
  from a b zeropoints_DEFAULT show ?thesis by blast
qed

text \<open>
  C8. When \<open>phot\<close> returns, its \<open>MAG\<close> column has one entry for every line of the
  \<open>pdump\<close> output, in order: the third field of the line, the magnitude that the package
  reports, read as a float, minus \<open>apcor\<close>. \<open>phot_mag\<close> returns the first entry of that
  column (and raises \<open>IndexError\<close> when there is no line).
\<close>

theorem phot_MAG_minus_apcor:
  assumes "phot fl il env apcor = Inr h"
  shows "\<exists>ms. data h ''MAG'' = Some (map (\<lambda>m. CFlt (m - apcor)) ms) \<and>
              list_all2 (\<lambda>line m. 2 < length (split line) \<and> fl (split line ! 2) = Some m)
                (pdump_out env) ms \<and>
              phot_mag fl il env apcor =
                (case ms of [] \<Rightarrow> Inl IndexError | m # _ \<Rightarrow> Inr (CFlt (m - apcor)))"
proof -
  from assms obtain zmag d where
    d: "phot_lines fl il apcor (map_of (map (\<lambda>col. (col, [])) order)) (pdump_out env) = Inr d" and
    h: "h = \<lparr>aper_cor = apcor, zeropoint = zmag, data = d\<rparr>"
    by (auto simp: phot_def split: sum.splits)
  from phot_lines_MAG [OF d initial_MAG] obtain ms where
    ms: "d ''MAG'' = Some (map (\<lambda>m. CFlt (m - apcor)) ms)"
        "list_all2 (\<lambda>line m. 2 < length (split line) \<and> fl (split line ! 2) = Some m)
           (pdump_out env) ms"
    by auto
  have "phot_mag fl il env apcor =
          (case ms of [] \<Rightarrow> Inl IndexError | m # _ \<Rightarrow> Inr (CFlt (m - apcor)))"
    using assms h ms(1) by (cases ms) (simp_all add: phot_mag_def)
  with h ms show ?thesis by auto
qed

theorem phot_zmag_precedence_witness:
  "(\<exists>h. phot (\<lambda>s. if s = ''25.5'' then Some 25.5 else None) (\<lambda>s. None)
          \<lparr>header_FILTER = Some ''R'', header_PHOTZP = Some 26.3,
           zeropoint_used = Some ''25.5'', pdump_out = []\<rparr> 0.3 = Inr h \<and> zeropoint h = 25.5) \<and>
   phot (\<lambda>s. if s = ''25.5'' then Some 25.5 else None) (\<lambda>s. None)
     \<lparr>header_FILTER = Some ''R'', header_PHOTZP = Some 26.3,
      zeropoint_used = Some ''garbage'', pdump_out = []\<rparr> 0.3 = Inl ValueError \<and>
   (\<exists>h. phot (\<lambda>s. None) (\<lambda>s. None)
          \<lparr>header_FILTER = Some ''R'', header_PHOTZP = Some 26.3,
           zeropoint_used = None, pdump_out = []\<rparr> 0.3 = Inr h \<and> zeropoint h = 26.3) \<and>
   (\<exists>h. phot (\<lambda>s. None) (\<lambda>s. None)
          \<lparr>header_FILTER = Some ''R'', header_PHOTZP = None,
           zeropoint_used = None, pdump_out = []\<rparr> 0.3 = Inr h \<and> zeropoint h = 26.07) \<and>
   (\<exists>h. phot (\<lambda>s. None) (\<lambda>s. None)
          \<lparr>header_FILTER = Some ''u.MP9301'', header_PHOTZP = None,
           zeropoint_used = None, pdump_out = []\<rparr> 0.3 = Inr h \<and> zeropoint h = 26)"
proof -
  let ?fl = "\<lambda>s. if s = ''25.5'' then Some (25.5::real) else None"
  let ?no = "\<lambda>s::string. None :: real option"
  let ?il = "\<lambda>s::string. None :: int option"
  have a: "\<exists>h. phot ?fl ?il
          \<lparr>header_FILTER = Some ''R'', header_PHOTZP = Some 26.3,
           zeropoint_used = Some ''25.5'', pdump_out = []\<rparr> 0.3 = Inr h \<and> zeropoint h = 25.5"
    using phot_zmag_precedence [of "\<lparr>header_FILTER = Some ''R'', header_PHOTZP = Some 26.3,
      zeropoint_used = Some ''25.5'', pdump_out = []\<rparr>" "''25.5''" ?fl ?il "0.3" "25.5"]
    by simp
  have b: "phot ?fl ?il
     \<lparr>header_FILTER = Some ''R'', header_PHOTZP = Some 26.3,
      zeropoint_used = Some ''garbage'', pdump_out = []\<rparr> 0.3 = Inl ValueError"
    using phot_zmag_precedence [of "\<lparr>header_FILTER = Some ''R'', header_PHOTZP = Some 26.3,
      zeropoint_used = Some ''garbage'', pdump_out = []\<rparr>" "''garbage''" ?fl ?il "0.3" 0]
    by simp
  have c: "\<exists>h. phot ?no ?il
          \<lparr>header_FILTER = Some ''R'', header_PHOTZP = Some 26.3,
           zeropoint_used = None, pdump_out = []\<rparr> 0.3 = Inr h \<and> zeropoint h = 26.3"
    using phot_zmag_precedence [of "\<lparr>header_FILTER = Some ''R'', header_PHOTZP = Some 26.3,
      zeropoint_used = None, pdump_out = []\<rparr>" "[]" ?no ?il "0.3" "26.3"]
    by simp
  have d: "\<exists>h. phot ?no ?il
          \<lparr>header_FILTER = Some ''R'', header_PHOTZP = None,
           zeropoint_used = None, pdump_out = []\<rparr> 0.3 = Inr h \<and> zeropoint h = 26.07"
    using phot_zmag_precedence [of "\<lparr>header_FILTER = Some ''R'', header_PHOTZP = None,
      zeropoint_used = None, pdump_out = []\<rparr>" "[]" ?no ?il "0.3" "26.07"]
    by (simp add: zeropoints_def)
  have e: "\<exists>h. phot ?no ?il
          \<lparr>header_FILTER = Some ''u.MP9301'', header_PHOTZP = None,
           zeropoint_used = None, pdump_out = []\<rparr> 0.3 = Inr h \<and> zeropoint h = 26"
    using phot_zmag_precedence [of "\<lparr>header_FILTER = Some ''u.MP9301'', header_PHOTZP = None,
      zeropoint_used = None, pdump_out = []\<rparr>" "[]" ?no ?il "0.3" "26"]
    by (simp add: zeropoints_def)
  from a b c d e show ?thesis by blast
qed

lemma split_example: "split ''1 2 24.5 0.1 7 0 0 7'' = [''1'', ''2'', ''24.5'', ''0.1'', ''7'', ''0'', ''0'', ''7'']"
  by (simp add: split_def is_space_def)

theorem phot_MAG_minus_apcor_witness:
  "phot_mag (\<lambda>s. if s = ''24.5'' then Some 24.5 else Some 0) (\<lambda>s. Some 7)
     \<lparr>header_FILTER = None, header_PHOTZP = None, zeropoint_used = None,
      pdump_out = [''1 2 24.5 0.1 7 0 0 7'']\<rparr> 0.3 = Inr (CFlt (24.5 - 0.3))"
proof -
  let ?fl = "\<lambda>s. if s = ''24.5'' then Some (24.5::real) else Some 0"
  let ?il = "\<lambda>s::string. Some (7::int)"
  let ?env = "\<lparr>header_FILTER = None, header_PHOTZP = None, zeropoint_used = None,
               pdump_out = [''1 2 24.5 0.1 7 0 0 7'']\<rparr>"
  have "\<exists>h. phot ?fl ?il ?env 0.3 = Inr h"
    by (simp add: phot_def phot_zmag_def zeropoints_def order_def format_def phot_col_def
          re_match_pct_def append_col_def split_example)
  then obtain h where h: "phot ?fl ?il ?env 0.3 = Inr h" by blast
  from phot_MAG_minus_apcor [OF h] obtain ms where
    ms: "list_all2 (\<lambda>line m. 2 < length (split line) \<and> ?fl (split line ! 2) = Some m)
           (pdump_out ?env) ms"
        "phot_mag ?fl ?il ?env 0.3 =
           (case ms of [] \<Rightarrow> Inl IndexError | m # _ \<Rightarrow> Inr (CFlt (m - 0.3)))"
    by blast
  from ms(1) have "ms = [24.5]"
    by (auto simp: list_all2_Cons1 split_example)
  with ms(2) show ?thesis by simp
qed

section \<open>Properties of match_lists\<close>

lemma idx16_small: "k < 32768 \<Longrightarrow> idx16 k = int k"
proof -
  assume "k < 32768"
  then have "- (2 ^ 15) \<le> int k" "int k < 2 ^ 15" by simp_all
  then have "signed_take_bit 15 (int k) = int k" by (rule signed_take_bit_int_eq_self)
  then show ?thesis by (simp add: idx16_def signed_of_nat)
qed

lemma arange16_small: "n \<le> 32768 \<Longrightarrow> arange16 n = map int [0..<n]"
  by (simp add: arange16_def idx16_small)

lemma amin_Min: "xs \<noteq> [] \<Longrightarrow> amin xs = Inr (Min (set xs))"
proof (cases xs)
  case Nil
  assume "xs \<noteq> []"
  with Nil show ?thesis by simp
next
  case (Cons a list)
  have "Min (set (a # list)) = fold min list a" by (rule Min.set_eq_fold)
  then show ?thesis using Cons by simp
qed

lemma set_take_where:
  "length cond = n \<Longrightarrow>
   set (take_where (map int [0..<n]) cond) = {int k | k. k < n \<and> cond ! k}"
  by (auto simp: take_where_def set_zip image_iff) force

lemma euclid_sym:
  assumes "\<forall>a b. fsquare ar (fsub ar a b) = fsquare ar (fsub ar b a)"
  shows "euclid ar p q = euclid ar q p"
proof -
  have "fsquare ar (fsub ar (fst q) (fst p)) = fsquare ar (fsub ar (fst p) (fst q))"
       "fsquare ar (fsub ar (snd q) (snd p)) = fsquare ar (fsub ar (snd p) (snd q))"
    using assms by blast+
  then show ?thesis by (simp add: euclid_def)
qed

lemma row_nat: "k < length pos \<Longrightarrow> row pos (int k) = Inr (pos ! k)"
  by (simp add: row_def Let_def)

lemma match_group_spec:
  assumes "pos \<noteq> []" "length pos \<le> 32768"
  shows "\<exists>g. match_group ar pos p t = Inr g \<and>
             set g = {int k | k. k < length pos \<and> euclid ar p (pos ! k) \<le> t \<and>
                        (\<forall>k' < length pos. euclid ar p (pos ! k) \<le> euclid ar p (pos ! k'))}"
proof -
  let ?sep = "separation ar p pos"
  let ?m = "Min (set ?sep)"
  have ne: "?sep \<noteq> []" using assms(1) by (simp add: separation_def)
  have g: "match_group ar pos p t =
           Inr (take_where (map int [0..<length pos]) (match_condition t ?sep ?m))"
    by (simp add: match_group_def Let_def amin_Min [OF ne] arange16_small [OF assms(2)])
  have len: "length (match_condition t ?sep ?m) = length pos"
    by (simp add: match_condition_def separation_def)
  have nth: "\<And>k. k < length pos \<Longrightarrow> ?sep ! k = euclid ar p (pos ! k)"
    by (simp add: separation_def)
  have min_iff: "\<And>k. k < length pos \<Longrightarrow>
        (euclid ar p (pos ! k) = ?m) = (\<forall>k' < length pos. euclid ar p (pos ! k) \<le> euclid ar p (pos ! k'))"
  proof -
    fix k assume k: "k < length pos"
    let ?d = "euclid ar p (pos ! k)"
    have mem: "?d \<in> set ?sep" using k by (auto simp: separation_def)
    have fin: "finite (set ?sep)" "set ?sep \<noteq> {}" using ne by simp_all
    have "(?m = ?d) = (?d \<in> set ?sep \<and> (\<forall>s \<in> set ?sep. ?d \<le> s))"
      by (rule Min_eq_iff [OF fin])
    also have "\<dots> = (\<forall>s \<in> set ?sep. ?d \<le> s)"
      using mem by simp
    also have "\<dots> = (\<forall>k' < length pos. ?d \<le> euclid ar p (pos ! k'))"
      by (auto simp: separation_def all_set_conv_all_nth)
    finally show "(?d = ?m) = (\<forall>k' < length pos. ?d \<le> euclid ar p (pos ! k'))"
      by (simp add: eq_commute)
  qed
  have "set (take_where (map int [0..<length pos]) (match_condition t ?sep ?m)) =
        {int k | k. k < length pos \<and> match_condition t ?sep ?m ! k}"
    by (rule set_take_where [OF len])
  also have "\<dots> = {int k | k. k < length pos \<and> euclid ar p (pos ! k) \<le> t \<and>
                        (\<forall>k' < length pos. euclid ar p (pos ! k) \<le> euclid ar p (pos ! k'))}"
  proof -
    have "\<And>k. k < length pos \<Longrightarrow>
            match_condition t ?sep ?m ! k =
            (euclid ar p (pos ! k) \<le> t \<and> (\<forall>k' < length pos. euclid ar p (pos ! k) \<le> euclid ar p (pos ! k')))"
    proof -
      fix k assume k: "k < length pos"
      then have "match_condition t ?sep ?m ! k = (?sep ! k \<le> t \<and> ?sep ! k = ?m)"
        by (simp add: match_condition_def separation_def)
      with k show "match_condition t ?sep ?m ! k =
            (euclid ar p (pos ! k) \<le> t \<and> (\<forall>k' < length pos. euclid ar p (pos ! k) \<le> euclid ar p (pos ! k')))"
        by (simp add: min_iff [OF k] nth [OF k])
    qed
    then show ?thesis by blast
  qed
  finally show ?thesis using g by blast
qed

lemma inner_loop_spec:
  assumes "pos1 \<noteq> []" "length pos1 \<le> 32768" "idx1 < length pos1"
    and "\<forall>c \<in> set cands. \<exists>k < length pos2. c = int k"
  shows "\<exists>r. inner_loop ar pos1 pos2 t idx1 cands = Inr r \<and>
             (case r of
                None \<Rightarrow> \<forall>k. int k \<in> set cands \<longrightarrow> \<not> nearest_back ar pos1 pos2 t idx1 k
              | Some j \<Rightarrow> j \<in> set cands \<and> nearest_back ar pos1 pos2 t idx1 (nat j))"
  using assms(4)
proof (induction cands)
  case Nil
  show ?case by simp
next
  case (Cons idx2 rest)
  from Cons.prems obtain k where k: "k < length pos2" "idx2 = int k" by auto
  from Cons.prems have rest: "\<forall>c \<in> set rest. \<exists>k < length pos2. c = int k" by simp
  have r: "row pos2 idx2 = Inr (pos2 ! k)" using k by (simp add: row_nat)
  from match_group_spec [OF assms(1,2), of ar "pos2 ! k" t] obtain g where
    g: "match_group ar pos1 (pos2 ! k) t = Inr g"
       "set g = {int i | i. i < length pos1 \<and> euclid ar (pos2 ! k) (pos1 ! i) \<le> t \<and>
                   (\<forall>i' < length pos1. euclid ar (pos2 ! k) (pos1 ! i) \<le> euclid ar (pos2 ! k) (pos1 ! i'))}"
    by blast
  have mem: "(int idx1 \<in> set g) = nearest_back ar pos1 pos2 t idx1 k"
    using assms(3) by (auto simp: g(2) nearest_back_def)
  show ?case
  proof (cases "nearest_back ar pos1 pos2 t idx1 k")
    case True
    then have "inner_loop ar pos1 pos2 t idx1 (idx2 # rest) = Inr (Some idx2)"
      by (simp add: r g(1) mem)
    moreover have "nearest_back ar pos1 pos2 t idx1 (nat idx2)" using True k(2) by simp
    ultimately show ?thesis by simp
  next
    case False
    then have eq: "inner_loop ar pos1 pos2 t idx1 (idx2 # rest) = inner_loop ar pos1 pos2 t idx1 rest"
      by (simp add: r g(1) mem)
    from Cons.IH [OF rest] obtain res where
      res: "inner_loop ar pos1 pos2 t idx1 rest = Inr res"
           "case res of
              None \<Rightarrow> \<forall>k. int k \<in> set rest \<longrightarrow> \<not> nearest_back ar pos1 pos2 t idx1 k
            | Some j \<Rightarrow> j \<in> set rest \<and> nearest_back ar pos1 pos2 t idx1 (nat j)"
      by blast
    have "case res of
              None \<Rightarrow> \<forall>k'. int k' \<in> set (idx2 # rest) \<longrightarrow> \<not> nearest_back ar pos1 pos2 t idx1 k'
            | Some j \<Rightarrow> j \<in> set (idx2 # rest) \<and> nearest_back ar pos1 pos2 t idx1 (nat j)"
      using res(2) False k(2) by (cases res) auto
    with eq res(1) show ?thesis by simp
  qed
qed

lemma mutual_back:
  assumes sym: "\<forall>a b. fsquare ar (fsub ar a b) = fsquare ar (fsub ar b a)"
  shows "mutual ar pos1 pos2 t i j =
     (euclid ar (pos1 ! i) (pos2 ! j) \<le> t \<and>
      (\<forall>j' < length pos2. euclid ar (pos1 ! i) (pos2 ! j) \<le> euclid ar (pos1 ! i) (pos2 ! j')) \<and>
      nearest_back ar pos1 pos2 t i j)"
  by (auto simp: mutual_def nearest_back_def euclid_sym [OF sym, of "pos2 ! j"])

lemma entry_spec:
  assumes sym: "\<forall>a b. fsquare ar (fsub ar a b) = fsquare ar (fsub ar b a)"
    and "pos2 \<noteq> []" "length pos1 \<le> 32768" "length pos2 \<le> 32768" "idx1 < length pos1"
  shows "\<exists>g entry. match_group ar pos2 (pos1 ! idx1) t = Inr g \<and>
                   inner_loop ar pos1 pos2 t idx1 g = Inr entry \<and>
                   entry_ok ar pos1 pos2 t idx1 entry"
proof -
  from assms(5) have ne1: "pos1 \<noteq> []" by auto
  from match_group_spec [OF assms(2,4), of ar "pos1 ! idx1" t] obtain g where
    g: "match_group ar pos2 (pos1 ! idx1) t = Inr g"
       "set g = {int k | k. k < length pos2 \<and> euclid ar (pos1 ! idx1) (pos2 ! k) \<le> t \<and>
                   (\<forall>k' < length pos2. euclid ar (pos1 ! idx1) (pos2 ! k) \<le>
                                        euclid ar (pos1 ! idx1) (pos2 ! k'))}"
    by blast
  have cands: "\<forall>c \<in> set g. \<exists>k < length pos2. c = int k"
    by (auto simp: g(2))
  from inner_loop_spec [OF ne1 assms(3,5) cands, of ar t] obtain entry where
    e: "inner_loop ar pos1 pos2 t idx1 g = Inr entry"
       "case entry of
          None \<Rightarrow> \<forall>k. int k \<in> set g \<longrightarrow> \<not> nearest_back ar pos1 pos2 t idx1 k
        | Some j \<Rightarrow> j \<in> set g \<and> nearest_back ar pos1 pos2 t idx1 (nat j)"
    by blast
  have "entry_ok ar pos1 pos2 t idx1 entry"
  proof (cases entry)
    case None
    with e(2) have nb: "\<forall>k. int k \<in> set g \<longrightarrow> \<not> nearest_back ar pos1 pos2 t idx1 k" by simp
    have "\<forall>j < length pos2. \<not> mutual ar pos1 pos2 t idx1 j"
    proof (intro allI impI notI)
      fix j assume j: "j < length pos2" and m: "mutual ar pos1 pos2 t idx1 j"
      from m have "int j \<in> set g" using j by (auto simp: g(2) mutual_back [OF sym])
      with nb have "\<not> nearest_back ar pos1 pos2 t idx1 j" by blast
      with m show False by (simp add: mutual_back [OF sym])
    qed
    with None show ?thesis by (simp add: entry_ok_def)
  next
    case (Some j)
    with e(2) have jg: "j \<in> set g" and b: "nearest_back ar pos1 pos2 t idx1 (nat j)" by simp_all
    from jg obtain k where k: "j = int k" "k < length pos2"
      "euclid ar (pos1 ! idx1) (pos2 ! k) \<le> t"
      "\<forall>k' < length pos2. euclid ar (pos1 ! idx1) (pos2 ! k) \<le> euclid ar (pos1 ! idx1) (pos2 ! k')"
      by (auto simp: g(2))
    with b have "mutual ar pos1 pos2 t idx1 k" by (simp add: mutual_back [OF sym])
    with Some k(1,2) show ?thesis by (simp add: entry_ok_def)
  qed
  with g(1) e(1) show ?thesis by blast
qed

lemma outer_loop_spec:
  assumes sym: "\<forall>a b. fsquare ar (fsub ar a b) = fsquare ar (fsub ar b a)"
    and "pos2 \<noteq> []" "length pos1 \<le> 32768" "length pos2 \<le> 32768"
    and "\<forall>i \<in> set idxs. i < length pos1"
  shows "\<exists>m. outer_loop ar pos1 pos2 t idxs = Inr m \<and> list_all2 (entry_ok ar pos1 pos2 t) idxs m"
  using assms(5)
proof (induction idxs)
  case Nil
  show ?case by simp
next
  case (Cons idx1 later)
  from Cons.prems have i: "idx1 < length pos1" and rest: "\<forall>i \<in> set later. i < length pos1"
    by simp_all
  from entry_spec [OF assms(1-4) i, of t] obtain g entry where
    g: "match_group ar pos2 (pos1 ! idx1) t = Inr g"
       "inner_loop ar pos1 pos2 t idx1 g = Inr entry" "entry_ok ar pos1 pos2 t idx1 entry"
    by blast
  from Cons.IH [OF rest] obtain m where
    m: "outer_loop ar pos1 pos2 t later = Inr m" "list_all2 (entry_ok ar pos1 pos2 t) later m"
    by blast
  have "outer_loop ar pos1 pos2 t (idx1 # later) = Inr (entry # m)"
    by (simp add: g(1,2) m(1))
  with g(3) m(2) show ?case by simp
qed

text \<open>
  C1, as the code has it. For position arrays of finite floating-point coordinates, of at
  most 32768 rows each (the range of the 16-bit indices), with \<open>pos2\<close> not empty unless
  \<open>pos1\<close> is, \<open>match_lists\<close> returns a masked array with one entry for every row of \<open>pos1\<close>.
  Entry \<open>i\<close> is unmasked with value \<open>j\<close> only if \<open>j\<close> is a row of \<open>pos2\<close> whose separation from
  \<open>pos1[i]\<close>, as computed in floating point, is at most the tolerance, no row of \<open>pos2\<close>
  has a smaller computed separation from \<open>pos1[i]\<close> and no row of \<open>pos1\<close> has a smaller one
  from \<open>pos2[j]\<close>; entry \<open>i\<close> is masked only if no row of \<open>pos2\<close> is such a mutual match.
  The arithmetic is any one in which \<open>(a - b) ** 2\<close> and \<open>(b - a) ** 2\<close> are the same number,
  as they are in IEEE arithmetic (\<open>float64_symmetric\<close>).
\<close>

theorem match_lists_mutual_nearest:
  fixes ar :: "'f::linorder arith"
  assumes sym: "\<forall>a b. fsquare ar (fsub ar a b) = fsquare ar (fsub ar b a)"
    and "pos1 = [] \<or> pos2 \<noteq> []" "length pos1 \<le> 32768" "length pos2 \<le> 32768"
  shows "\<exists>m. match_lists ar pos1 pos2 tolerance = Inr m \<and> length m = length pos1 \<and>
             (\<forall>i < length pos1.
                case m ! i of
                  None \<Rightarrow> \<forall>j < length pos2. \<not> mutual ar pos1 pos2 tolerance i j
                | Some j \<Rightarrow> 0 \<le> j \<and> nat j < length pos2 \<and> mutual ar pos1 pos2 tolerance i (nat j))"
proof (cases "pos1 = []")
  case True
  then show ?thesis by (simp add: match_lists_def)
next
  case False
  with assms(2) have ne2: "pos2 \<noteq> []" by simp
  have idx: "\<forall>i \<in> set [0..<length pos1]. i < length pos1" by simp
  from outer_loop_spec [OF sym ne2 assms(3,4) idx, of tolerance] obtain m where
    m: "outer_loop ar pos1 pos2 tolerance [0..<length pos1] = Inr m"
       "list_all2 (entry_ok ar pos1 pos2 tolerance) [0..<length pos1] m"
    by blast
  from m(2) have len: "length m = length pos1" by (simp add: list_all2_lengthD [symmetric])
  have "\<forall>i < length pos1. entry_ok ar pos1 pos2 tolerance i (m ! i)"
  proof (intro allI impI)
    fix i assume i: "i < length pos1"
    from list_all2_nthD [OF m(2), of i] i
    show "entry_ok ar pos1 pos2 tolerance i (m ! i)" by simp
  qed
  then have "\<forall>i < length pos1.
                case m ! i of
                  None \<Rightarrow> \<forall>j < length pos2. \<not> mutual ar pos1 pos2 tolerance i j
                | Some j \<Rightarrow> 0 \<le> j \<and> nat j < length pos2 \<and> mutual ar pos1 pos2 tolerance i (nat j)"
    by (simp add: entry_ok_def)
  with m(1) len show ?thesis by (auto simp: match_lists_def)
qed

lemma round_even_int: "round_even (of_int n) = n"
  by (simp add: round_even_def)

lemma round_even_minus: "round_even (- y) = - round_even y"
proof (cases "y = of_int \<lfloor>y\<rfloor>")
  case True
  then obtain n where "y = of_int n" by blast
  then have "- y = of_int (- n)" by simp
  then have "round_even (- y) = - n" by (simp only: round_even_int)
  with \<open>y = of_int n\<close> show ?thesis by (simp add: round_even_int)
next
  case False
  let ?f = "\<lfloor>y\<rfloor>"
  have lt: "of_int ?f < y" using False by (metis of_int_floor_le order_le_less)
  have f2: "\<lfloor>- y\<rfloor> = - ?f - 1"
    using lt by (simp add: floor_eq_iff) linarith
  have ev: "even (- ?f - 1) = odd ?f" by simp
  show ?thesis
    unfolding round_even_def Let_def f2 ev
    using lt by (auto simp: field_simps)
qed

lemma round64_minus: "round64 (- x) = - round64 x"
  by (simp add: round64_def Let_def round_even_minus)

lemma round64_at:
  assumes "x \<noteq> 0" "2 powr (of_int e) \<le> \<bar>x\<bar>" "\<bar>x\<bar> < 2 powr (of_int e + 1)"
  shows "round64 x = of_int (round_even (x / 2 powr (of_int e - 52))) * 2 powr (of_int e - 52)"
proof -
  have "\<lfloor>log 2 \<bar>x\<bar>\<rfloor> = e"
    using assms by (subst floor_log_eq_powr_iff) auto
  with assms(1) show ?thesis by (simp add: round64_def Let_def)
qed

lemma round64_exact:
  assumes "x \<noteq> 0" "2 powr (of_int e) \<le> \<bar>x\<bar>" "\<bar>x\<bar> < 2 powr (of_int e + 1)"
    and "x / 2 powr (of_int e - 52) = of_int n"
  shows "round64 x = x"
proof -
  have "round64 x = of_int (round_even (x / 2 powr (of_int e - 52))) * 2 powr (of_int e - 52)"
    by (rule round64_at [OF assms(1-3)])
  also have "\<dots> = of_int n * 2 powr (of_int e - 52)"
    by (simp only: assms(4) round_even_int)
  also have "\<dots> = x" using assms(4) by (simp add: field_simps)
  finally show ?thesis .
qed

lemma r1: "round64 1 = 1"
  by (rule round64_exact [where e = 0 and n = "2 ^ 52"]) (simp_all add: powr_minus field_simps)

lemma r1e8: "round64 100000000 = 100000000"
  by (rule round64_exact [where e = 26 and n = "100000000 * 2 ^ 26"])
     (simp_all add: powr_minus field_simps)

lemma r1e16: "round64 10000000000000000 = 10000000000000000"
  by (rule round64_exact [where e = 53 and n = "5000000000000000"])
     (simp_all add: powr_minus field_simps)

lemma r50: "round64 50 = 50"
  by (rule round64_exact [where e = 5 and n = "50 * 2 ^ 47"])
     (simp_all add: powr_minus field_simps)

lemma r_tie: "round64 10000000000000001 = 10000000000000000"
proof -
  have "round64 10000000000000001 =
        of_int (round_even (10000000000000001 / 2 powr (of_int 53 - 52))) * 2 powr (of_int 53 - 52)"
    by (rule round64_at) simp_all
  also have "\<dots> = of_int (round_even (10000000000000001 / 2)) * 2" by simp
  also have "round_even (10000000000000001 / 2) = 5000000000000000"
    by (simp add: round_even_def Let_def)
  finally show ?thesis by simp
qed

lemma float64_symmetric:
  "\<forall>a b. fsquare float64 (fsub float64 a b) = fsquare float64 (fsub float64 b a)"
proof (intro allI)
  fix a b :: real
  have "round64 (a - b) = - round64 (b - a)"
    using round64_minus [of "b - a"] by simp
  then show "fsquare float64 (fsub float64 a b) = fsquare float64 (fsub float64 b a)"
    by (simp add: float64_def)
qed

lemma round64_zero: "round64 0 = 0"
  by (simp add: round64_def)

lemma euclid_float64:
  "euclid float64 (a, b) (c, d) =
     round64 (sqrt (round64 (round64 (round64 (c - a) * round64 (c - a)) +
                             round64 (round64 (d - b) * round64 (d - b)))))"
  by (simp add: euclid_def float64_def)

lemma r2500: "round64 2500 = 2500"
  by (rule round64_exact [where e = 11 and n = "2500 * 2 ^ 41"])
     (simp_all add: powr_minus field_simps)

lemma sqrt_1e16: "sqrt 10000000000000000 = 100000000"
  by (rule real_sqrt_unique) simp_all

lemma sqrt_2500: "sqrt 2500 = 50"
  by (rule real_sqrt_unique) simp_all

lemmas float64_eval = euclid_float64 round64_zero round64_minus r1 r50 r2500 r1e8 r1e16 r_tie
  sqrt_1e16 sqrt_2500

lemmas match_eval = match_lists_def match_group_def separation_def match_condition_def
  take_where_def arange16_def idx16_small row_def Let_def

lemma e_far: "euclid float64 (0, 0) (100000000, 1) = 100000000"
  by (simp add: float64_eval)

lemma e_near: "euclid float64 (0, 0) (100000000, 0) = 100000000"
  by (simp add: float64_eval)

lemma e_back: "euclid float64 (100000000, 1) (0, 0) = 100000000"
  by (simp add: float64_eval)

lemma match_lists_float_tie: "match_lists float64 [(0, 0)] [(100000000, 1), (100000000, 0)] 1000000000 = Inr [Some 0]"
  by (simp add: match_eval e_far e_near e_back)

lemma match_lists_example: "match_lists float64 [(0, 0), (1, 0)] [(0, 0)] 100 = Inr [Some 0, None]"
  by (simp add: match_eval float64_eval)

theorem match_lists_mutual_nearest_witness:
  "match_lists float64 [(0, 0), (1, 0)] [(0, 0)] 100 = Inr [Some 0, None] \<and>
   mutual float64 [(0, 0), (1, 0)] [(0, 0)] 100 0 0 \<and>
   \<not> mutual float64 [(0, 0), (1, 0)] [(0, 0)] 100 1 0"
proof -
  let ?pos1 = "[(0, 0), (1, 0)] :: real xy list"
  let ?pos2 = "[(0, 0)] :: real xy list"
  have ev: "match_lists float64 ?pos1 ?pos2 100 = Inr [Some 0, None]"
    by (simp add: match_eval float64_eval)
  from match_lists_mutual_nearest [OF float64_symmetric, of ?pos1 ?pos2 100] obtain m where
    m: "match_lists float64 ?pos1 ?pos2 100 = Inr m"
       "\<forall>i < length ?pos1.
          case m ! i of
            None \<Rightarrow> \<forall>j < length ?pos2. \<not> mutual float64 ?pos1 ?pos2 100 i j
          | Some j \<Rightarrow> 0 \<le> j \<and> nat j < length ?pos2 \<and> mutual float64 ?pos1 ?pos2 100 i (nat j)"
    by auto
  from m(1) ev have eq: "m = [Some 0, None]" by simp
  have i0: "(0::nat) < length ?pos1" and i1: "(1::nat) < length ?pos1" by simp_all
  from m(2) [rule_format, OF i0] have a: "mutual float64 ?pos1 ?pos2 100 0 0" by (simp add: eq)
  from m(2) [rule_format, OF i1] have b: "\<not> mutual float64 ?pos1 ?pos2 100 1 0" by (simp add: eq)
  from ev a b show ?thesis by blast
qed

lemma take_where_last:
  "take_where (xs @ [x]) (replicate (length xs) False @ [True]) = [x]"
proof -
  have "filter snd (zip xs (replicate (length xs) False)) = []"
    by (auto simp: filter_empty_conv dest: set_zip_rightD)
  then show ?thesis by (simp add: take_where_def)
qed

lemma match_lists_index_wraps:
  fixes n :: nat
  defines "pos2 \<equiv> replicate n (50, 0) @ [(0, 0)]"
  assumes w: "idx16 n = - int n" and n: "2 \<le> n"
  shows "match_lists float64 [(0, 0)] pos2 100 = Inr [Some (- int n)]"
proof -
  have len: "length pos2 = Suc n" by (simp add: pos2_def)
  have e50: "euclid float64 (0, 0) (50, 0) = 50" by (simp add: float64_eval)
  have e0: "euclid float64 (0, 0) (0, 0) = 0" by (simp add: float64_eval)
  have eb: "euclid float64 (50, 0) (0, 0) = 50" by (simp add: float64_eval)
  have sep: "separation float64 (0, 0) pos2 = replicate n 50 @ [0]"
    by (simp add: separation_def pos2_def e50 e0)
  have ne: "replicate n (50::real) @ [0] \<noteq> []" by simp
  have "set (replicate n (50::real) @ [0]) = {50, 0}" using n by auto
  then have mn: "amin (replicate n (50::real) @ [0]) = Inr 0"
    by (simp add: amin_Min [OF ne])
  have cond: "match_condition 100 (replicate n (50::real) @ [0]) 0 = replicate n False @ [True]"
    by (simp add: match_condition_def)
  have ar: "arange16 (Suc n) = arange16 n @ [idx16 n]"
    by (simp add: arange16_def)
  have la: "length (arange16 n) = n" by (simp add: arange16_def)
  have g1: "match_group float64 pos2 (0, 0) 100 = Inr [- int n]"
    using take_where_last [of "arange16 n" "idx16 n"]
    by (simp add: match_group_def Let_def sep mn cond len ar la w)
  have rw: "row pos2 (- int n) = Inr (50, 0)"
  proof -
    have "int (length pos2) + - int n = 1" by (simp add: len)
    moreover have "pos2 ! 1 = (50, 0)" using n by (simp add: pos2_def nth_append)
    ultimately show ?thesis using n by (simp add: row_def Let_def len)
  qed
  have g2: "match_group float64 [(0, 0)] (50, 0) 100 = Inr [0]"
    by (simp add: match_group_def Let_def separation_def eb match_condition_def
          take_where_def arange16_def idx16_small)
  show ?thesis
    by (simp add: match_lists_def g1 rw g2)
qed

lemma match_lists_int16_wrap:
  "match_lists float64 [(0, 0)] (replicate 32768 (50, 0) @ [(0, 0)]) 100 = Inr [Some (- 32768)]"
proof -
  have w: "idx16 32768 = - int 32768" by (simp add: idx16_def)
  have n: "(2::nat) \<le> 32768" by simp
  from match_lists_index_wraps [OF w n] show ?thesis by simp
qed

text \<open>
  The claim C1 as stated fails in three ways, each in binary64 arithmetic. With an empty
  \<open>pos2\<close> and a \<open>pos1\<close> that is not empty, \<open>sep.min()\<close> of the first row raises \<open>ValueError\<close>
  and no array is returned. With \<open>pos2 = [[1e8, 1], [1e8, 0]]\<close> and \<open>pos1 = [[0, 0]]\<close> the
  two separations are computed as the same number \<open>1e8\<close>, since \<open>1e16 + 1\<close> rounds to
  \<open>1e16\<close>: entry 0 is unmasked with value 0, although row 1 is nearer to \<open>pos1[0]\<close> than
  row 0 in Euclidean distance. With 32769 rows in \<open>pos2\<close>, the last one at the position
  of the only row of \<open>pos1\<close>, the index of the last row is stored as \<open>-32768\<close>; \<open>pos2[-32768]\<close>
  is row 1, which is within the tolerance of \<open>pos1[0]\<close> but not nearest to it, and entry 0
  is unmasked with value \<open>-32768\<close>.
\<close>

theorem match_lists_fails:
  "match_lists float64 [(0, 0)] [] 100 = Inl ValueError \<and>
   (match_lists float64 [(0, 0)] [(100000000, 1), (100000000, 0)] 1000000000 = Inr [Some 0] \<and>
    sqrt ((100000000 - 0)\<^sup>2 + (0 - 0)\<^sup>2) < (sqrt ((100000000 - 0)\<^sup>2 + (1 - 0)\<^sup>2) :: real)) \<and>
   (match_lists float64 [(0, 0)] (replicate 32768 (50, 0) @ [(0, 0)]) 100 = Inr [Some (- 32768)] \<and>
    row (replicate 32768 (50, 0) @ [(0, 0 :: real)]) (- 32768) = Inr (50, 0) \<and>
    (replicate 32768 (50, 0) @ [(0, 0 :: real)]) ! 32768 = (0, 0) \<and>
    euclid float64 (0, 0) (0, 0) < euclid float64 (0, 0) (50, 0))"
proof -
  have a: "match_lists float64 [(0, 0)] [] 100 = Inl ValueError"
    by (simp add: match_lists_def match_group_def separation_def)
  have b: "sqrt ((100000000 - 0)\<^sup>2 + (0 - 0)\<^sup>2) < (sqrt ((100000000 - 0)\<^sup>2 + (1 - 0)\<^sup>2) :: real)"
    by (subst real_sqrt_less_iff) simp
  have c: "row (replicate 32768 (50, 0) @ [(0, 0 :: real)]) (- 32768) = Inr (50, 0)"
    by (simp add: row_def Let_def nth_append)
  have d: "(replicate 32768 (50, 0) @ [(0, 0 :: real)]) ! 32768 = (0, 0)"
    by (simp add: nth_append)
  have e: "euclid float64 (0, 0) (0, 0) < euclid float64 (0, 0) (50, 0)"
    by (simp add: float64_eval)
  from a match_lists_float_tie b match_lists_int16_wrap c d e show ?thesis by blast
qed

end
